theory Spec2Isabelle
  imports Complex_Main "HOL-Library.Word" "HOL-Library.Multiset"
begin

unbundle bit_operations_syntax

section \<open>sysmon: modelling conventions\<close>

text \<open>
  The development embeds three files of the repository: \<^verbatim>\<open>main.go\<close> (the interactive
  session), \<^verbatim>\<open>internal/processes.go\<close> (process ranking) and \<^verbatim>\<open>internal/network.go\<close>
  (interface statistics and throughput).

  \<^item> Go strings are byte sequences and \<^verbatim>\<open>len\<close> counts bytes; \<^typ>\<open>string\<close> is a list of
    8-bit characters, so \<^const>\<open>length\<close> and \<^const>\<open>take\<close> are Go's \<^verbatim>\<open>len\<close> and \<^verbatim>\<open>s[:n]\<close>.
  \<^item> \<^verbatim>\<open>uint64\<close> is \<^typ>\<open>64 word\<close>: subtraction and addition wrap.
  \<^item> \<^verbatim>\<open>time.Duration\<close> is a count of nanoseconds (\<^typ>\<open>int\<close>; the arithmetic of the
    program stays far inside 64 bits), a \<^verbatim>\<open>time.Time\<close> is a clock reading in nanoseconds.
  \<^item> \<^verbatim>\<open>float64\<close> and \<^verbatim>\<open>float32\<close> values are the finite numbers they denote, in
    \<^typ>\<open>real\<close>. The program only compares the percentages it reads; the \<^verbatim>\<open>float64\<close> arithmetic of
    \<^verbatim>\<open>network.go\<close> rounds every result to the nearest \<^verbatim>\<open>float64\<close> (section on \<^verbatim>\<open>float64\<close>
    arithmetic below).
  \<^item> What the operating system or a library returns is an argument of the model: a
    failing call is a value \<open>Inl e\<close>, a clock reading is a parameter.
\<close>

type_synonym rune = nat
type_synonym Duration = int
type_synonym Time = int
type_synonym uint64 = "64 word"

datatype error =
    ProviderError
  | SliceBoundsOutOfRange
  | NonPositiveTickerInterval

definition Second :: Duration where
  "Second = 1000000000"

section \<open>main.go: application state and key handling\<close>

datatype ViewType = ViewOverview | ViewProcesses | ViewNetwork | ViewDisks | ViewSystem

text \<open>
  \<^verbatim>\<open>type App struct\<close>. The field \<open>logFile\<close> is \<^verbatim>\<open>*os.File\<close>: \<open>None\<close> is \<^verbatim>\<open>nil\<close>, \<open>Some name\<close>
  an open file.
\<close>

record App =
  currentView :: ViewType
  refreshRate :: Duration
  paused :: bool
  logToFile :: bool
  logFile :: "string option"
  showHelp :: bool
  compactMode :: bool
  colorEnabled :: bool
  exitRequested :: bool

text \<open>
  A \<^verbatim>\<open>time.Ticker\<close> delivers a tick every \<open>period\<close> until it is stopped. The tickers that
  exist are kept in a list; \<^verbatim>\<open>main\<close> creates the first one and reads ticks from it only.
\<close>

record Ticker =
  period :: Duration
  stopped :: bool

text \<open>What the terminal and the file system see, in the order it happens.\<close>

datatype Effect =
    Display
  | ExportStats
  | CloseLog
  | LogOpenFailed
  | Cleanup

record World =
  app :: App
  tickers :: "Ticker list"
  effects :: "Effect list"

text \<open>\<^verbatim>\<open>time.NewTicker(d)\<close> panics when \<open>d \<le> 0\<close>; otherwise a running ticker is created.\<close>

definition NewTicker :: "Duration \<Rightarrow> World \<Rightarrow> error + World" where
  "NewTicker d w =
     (if d \<le> 0 then Inl NonPositiveTickerInterval
      else Inr (w\<lparr>tickers := tickers w @ [\<lparr>period = d, stopped = False\<rparr>]\<rparr>))"

text \<open>\<^verbatim>\<open>ticker.Stop()\<close> on the ticker at index \<open>i\<close>.\<close>

definition Stop :: "nat \<Rightarrow> World \<Rightarrow> World" where
  "Stop i w = w\<lparr>tickers := (tickers w)[i := (tickers w ! i)\<lparr>stopped := True\<rparr>]\<rparr>"

definition displayInterface :: "World \<Rightarrow> World" where
  "displayInterface w = w\<lparr>effects := effects w @ [Display]\<rparr>"

text \<open>
  \<^verbatim>\<open>toggleLogging\<close>. \<open>opened\<close> is the result of \<^verbatim>\<open>os.OpenFile\<close>: when it fails the
  function logs the failure and returns before the redraw, with the state unchanged.
\<close>

definition toggleLogging :: "error + string \<Rightarrow> World \<Rightarrow> World" where
  "toggleLogging opened w =
     (if logToFile (app w) then
        (let w1 = (if logFile (app w) \<noteq> None
                   then w\<lparr>app := (app w)\<lparr>logFile := None\<rparr>, effects := effects w @ [CloseLog]\<rparr>
                   else w)
         in displayInterface (w1\<lparr>app := (app w1)\<lparr>logToFile := False\<rparr>\<rparr>))
      else
        (case opened of
           Inl e \<Rightarrow> w\<lparr>effects := effects w @ [LogOpenFailed]\<rparr>
         | Inr file \<Rightarrow>
             displayInterface (w\<lparr>app := (app w)\<lparr>logFile := Some file, logToFile := True\<rparr>\<rparr>)))"

definition exportStats :: "World \<Rightarrow> World" where
  "exportStats w = w\<lparr>effects := effects w @ [ExportStats]\<rparr>"

text \<open>
  The rate keys of \<^verbatim>\<open>handleKeyPress\<close>: the new ticker is a variable of the \<^verbatim>\<open>case\<close> block,
  and its \<^verbatim>\<open>defer ticker.Stop()\<close> runs when \<^verbatim>\<open>handleKeyPress\<close> returns. The ticker of
  \<^verbatim>\<open>main\<close> is another variable and is not touched.
\<close>

definition retick :: "Duration \<Rightarrow> World \<Rightarrow> error + World" where
  "retick d w =
     (case NewTicker d (w\<lparr>app := (app w)\<lparr>refreshRate := d\<rparr>\<rparr>) of
        Inl e \<Rightarrow> Inl e
      | Inr w' \<Rightarrow> Inr (Stop (length (tickers w)) w'))"

abbreviation key :: "char \<Rightarrow> rune" where
  "key c \<equiv> of_char c"

definition setView :: "ViewType \<Rightarrow> World \<Rightarrow> World" where
  "setView v w = displayInterface (w\<lparr>app := (app w)\<lparr>currentView := v\<rparr>\<rparr>)"

text \<open>
  \<^verbatim>\<open>handleKeyPress\<close>: the result is the returned flag (\<open>True\<close>: exit) and the world after
  the call.
\<close>

definition handleKeyPress :: "error + string \<Rightarrow> rune \<Rightarrow> World \<Rightarrow> error + (bool \<times> World)" where
  "handleKeyPress opened k w =
     (if k = key CHR ''q'' \<or> k = key CHR ''Q'' then Inr (True, w)
      else if k = key CHR ''h'' \<or> k = key CHR ''H'' \<or> k = key CHR ''?'' then
        Inr (False, displayInterface (w\<lparr>app := (app w)\<lparr>showHelp := \<not> showHelp (app w)\<rparr>\<rparr>))
      else if k = key CHR ''1'' then Inr (False, setView ViewOverview w)
      else if k = key CHR ''2'' then Inr (False, setView ViewProcesses w)
      else if k = key CHR ''3'' then Inr (False, setView ViewNetwork w)
      else if k = key CHR ''4'' then Inr (False, setView ViewDisks w)
      else if k = key CHR ''5'' then Inr (False, setView ViewSystem w)
      else if k = key CHR ''p'' \<or> k = key CHR ''P'' then
        Inr (False, displayInterface (w\<lparr>app := (app w)\<lparr>paused := \<not> paused (app w)\<rparr>\<rparr>))
      else if k = key CHR ''c'' \<or> k = key CHR ''C'' then
        Inr (False, displayInterface (w\<lparr>app := (app w)\<lparr>compactMode := \<not> compactMode (app w)\<rparr>\<rparr>))
      else if k = key CHR ''l'' \<or> k = key CHR ''L'' then Inr (False, toggleLogging opened w)
      else if k = key CHR ''e'' \<or> k = key CHR ''E'' then Inr (False, exportStats w)
      else if k = key CHR ''r'' \<or> k = key CHR ''R'' then Inr (False, displayInterface w)
      else if k = key CHR ''+'' then
        (if refreshRate (app w) > Second
         then (case retick (refreshRate (app w) - Second) w of
                 Inl e \<Rightarrow> Inl e | Inr w' \<Rightarrow> Inr (False, w'))
         else Inr (False, w))
      else if k = key CHR ''-'' then
        (if refreshRate (app w) < 10 * Second
         then (case retick (refreshRate (app w) + Second) w of
                 Inl e \<Rightarrow> Inl e | Inr w' \<Rightarrow> Inr (False, w'))
         else Inr (False, w))
      else Inr (False, w))"

text \<open>The state \<^verbatim>\<open>main\<close> builds before its loop: the \<^verbatim>\<open>App\<close> literal and the first ticker.\<close>

definition initialApp :: App where
  "initialApp =
     \<lparr>currentView = ViewOverview, refreshRate = 3 * Second, paused = False,
      logToFile = False, logFile = None, showHelp = False, compactMode = False,
      colorEnabled = True, exitRequested = False\<rparr>"

definition initialWorld :: World where
  "initialWorld =
     \<lparr>app = initialApp,
      tickers = [\<lparr>period = refreshRate initialApp, stopped = False\<rparr>],
      effects = [Display]\<rparr>"

text \<open>
  One round of the \<^verbatim>\<open>select\<close> loop of \<^verbatim>\<open>main\<close>. An event is what one of the three
  channels delivers; a key comes with the result \<^verbatim>\<open>os.OpenFile\<close> would give at that
  moment. The flag of the result says that \<^verbatim>\<open>main\<close> returned; on return its deferred
  \<^verbatim>\<open>ticker.Stop()\<close> stops the first ticker.
\<close>

datatype Event = Signal | KeyPress rune "error + string" | Tick

definition cleanup :: "World \<Rightarrow> World" where
  "cleanup w =
     w\<lparr>effects := effects w @ (if logFile (app w) \<noteq> None then [CloseLog] else []) @ [Cleanup]\<rparr>"

definition mainStep :: "Event \<Rightarrow> World \<Rightarrow> error + (bool \<times> World)" where
  "mainStep ev w =
     (case ev of
        Signal \<Rightarrow> Inr (True, Stop 0 (cleanup w))
      | KeyPress k opened \<Rightarrow>
          (case handleKeyPress opened k w of
             Inl e \<Rightarrow> Inl e
           | Inr (quit, w') \<Rightarrow>
               if quit then Inr (True, Stop 0 (cleanup w')) else Inr (False, w'))
      | Tick \<Rightarrow>
          (if \<not> paused (app w) \<and> \<not> showHelp (app w)
           then Inr (False, displayInterface w) else Inr (False, w)))"

text \<open>The loop over a sequence of events; it stops at the first round that returns.\<close>

fun mainLoop :: "Event list \<Rightarrow> World \<Rightarrow> error + (bool \<times> World)" where
  "mainLoop [] w = Inr (False, w)"
| "mainLoop (ev # evs) w =
     (case mainStep ev w of
        Inl e \<Rightarrow> Inl e
      | Inr (done, w') \<Rightarrow> if done then Inr (True, w') else mainLoop evs w')"

text \<open>The period of the ticker \<^verbatim>\<open>main\<close> selects on: the first ticker created.\<close>

definition mainTickerPeriod :: "World \<Rightarrow> Duration" where
  "mainTickerPeriod w = period (tickers w ! 0)"

section \<open>The sorting routine\<close>

text \<open>
  \<^verbatim>\<open>processes.go\<close> and \<^verbatim>\<open>network.go\<close> sort their slices with \<^verbatim>\<open>sort.Slice\<close> of Go's standard
  library, whose documentation promises a sorted rearrangement and adds: ``The sort is not
  guaranteed to be stable: equal elements may be reversed from their original order.'' The
  functions of the repository are therefore modelled over an arbitrary sorting routine
  \<open>srt\<close>, which receives the comparison and the list, and the theorems assume of \<open>srt\<close> only
  what they need of that contract, at the call in question.

  To evaluate the functions on concrete inputs, this section also embeds the routine that
  \<^verbatim>\<open>sort.Slice\<close> runs (Go 1.19 and later, \<^verbatim>\<open>sort/zsortfunc.go\<close>; the repository asks for Go
  1.25): pattern-defeating quicksort, \<^verbatim>\<open>pdqsort_func\<close>, with its helpers, under their Go
  names.
\<close>

text \<open>
  Go's integer division truncates towards zero.
\<close>

definition quo :: "int \<Rightarrow> int \<Rightarrow> int" where
  "quo a b = sgn a * sgn b * (\<bar>a\<bar> div \<bar>b\<bar>)"

text \<open>
  The slice under sorting is a list; an index is a Go \<^verbatim>\<open>int\<close>. \<open>Swap\<close> is the swapper
  \<^verbatim>\<open>sort.Slice\<close> obtains by reflection, \<open>Less\<close> applies the caller's comparison to two
  positions (the closures of this repository compare the elements at \<open>i\<close> and \<open>j\<close>).
\<close>

definition Swap :: "'a list \<Rightarrow> int \<Rightarrow> int \<Rightarrow> 'a list" where
  "Swap xs i j = xs[nat i := xs ! nat j, nat j := xs ! nat i]"

definition Less :: "('a \<Rightarrow> 'a \<Rightarrow> bool) \<Rightarrow> 'a list \<Rightarrow> int \<Rightarrow> int \<Rightarrow> bool" where
  "Less lt xs i j = lt (xs ! nat i) (xs ! nat j)"

text \<open>
  \<^verbatim>\<open>insertionSort_func\<close>:
  \<^verbatim>\<open>for i := a + 1; i < b; i++ { for j := i; j > a && data.Less(j, j-1); j-- { data.Swap(j, j-1) } }\<close>
\<close>

function insertionInner :: "('a \<Rightarrow> 'a \<Rightarrow> bool) \<Rightarrow> int \<Rightarrow> int \<Rightarrow> 'a list \<Rightarrow> 'a list" where
  "insertionInner lt a j xs =
     (if j > a \<and> Less lt xs j (j - 1)
      then insertionInner lt a (j - 1) (Swap xs j (j - 1)) else xs)"
  by pat_completeness auto
termination
  by (relation "measure (\<lambda>(lt, a, j, xs). nat (j - a))") auto

declare insertionInner.simps [simp del]

function insertionOuter :: "('a \<Rightarrow> 'a \<Rightarrow> bool) \<Rightarrow> int \<Rightarrow> int \<Rightarrow> int \<Rightarrow> 'a list \<Rightarrow> 'a list" where
  "insertionOuter lt a b i xs =
     (if i < b then insertionOuter lt a b (i + 1) (insertionInner lt a i xs) else xs)"
  by pat_completeness auto
termination
  by (relation "measure (\<lambda>(lt, a, b, i, xs). nat (b - i))") auto

declare insertionOuter.simps [simp del]

definition insertionSort_func :: "('a \<Rightarrow> 'a \<Rightarrow> bool) \<Rightarrow> 'a list \<Rightarrow> int \<Rightarrow> int \<Rightarrow> 'a list" where
  "insertionSort_func lt xs a b = insertionOuter lt a b (a + 1) xs"

text \<open>
  \<^verbatim>\<open>siftDown_func\<close> and \<^verbatim>\<open>heapSort_func\<close>. The callers pass \<open>rt \<ge> 0\<close>; the loop is
  closed for a negative one, where Go would index out of range.
\<close>

function siftDown_func :: "('a \<Rightarrow> 'a \<Rightarrow> bool) \<Rightarrow> 'a list \<Rightarrow> int \<Rightarrow> int \<Rightarrow> int \<Rightarrow> 'a list" where
  "siftDown_func lt xs rt hi first =
     (let child = 2 * rt + 1 in
      if child \<ge> hi \<or> rt < 0 then xs
      else
        (let child' = (if child + 1 < hi \<and> Less lt xs (first + child) (first + child + 1)
                       then child + 1 else child) in
         if \<not> Less lt xs (first + rt) (first + child') then xs
         else siftDown_func lt (Swap xs (first + rt) (first + child')) child' hi first))"
  by pat_completeness auto
termination
  by (relation "measure (\<lambda>(lt, xs, rt, hi, first). nat (hi - rt))") (auto simp: Let_def)

declare siftDown_func.simps [simp del]

function heapBuild :: "('a \<Rightarrow> 'a \<Rightarrow> bool) \<Rightarrow> int \<Rightarrow> int \<Rightarrow> int \<Rightarrow> 'a list \<Rightarrow> 'a list" where
  "heapBuild lt hi first i xs =
     (if i \<ge> 0 then heapBuild lt hi first (i - 1) (siftDown_func lt xs i hi first) else xs)"
  by pat_completeness auto
termination
  by (relation "measure (\<lambda>(lt, hi, first, i, xs). nat (i + 1))") auto

declare heapBuild.simps [simp del]

function heapPop :: "('a \<Rightarrow> 'a \<Rightarrow> bool) \<Rightarrow> int \<Rightarrow> int \<Rightarrow> 'a list \<Rightarrow> 'a list" where
  "heapPop lt first i xs =
     (if i \<ge> 0
      then heapPop lt first (i - 1) (siftDown_func lt (Swap xs first (first + i)) 0 i first)
      else xs)"
  by pat_completeness auto
termination
  by (relation "measure (\<lambda>(lt, first, i, xs). nat (i + 1))") auto

declare heapPop.simps [simp del]

definition heapSort_func :: "('a \<Rightarrow> 'a \<Rightarrow> bool) \<Rightarrow> 'a list \<Rightarrow> int \<Rightarrow> int \<Rightarrow> 'a list" where
  "heapSort_func lt xs a b =
     (let first = a; hi = b - a
      in heapPop lt first (hi - 1) (heapBuild lt hi first (quo (hi - 1) 2) xs))"

text \<open>
  \<^verbatim>\<open>partition_func\<close>. Its two scans,
  \<^verbatim>\<open>for i <= j && data.Less(i, a) { i++ }\<close> and \<^verbatim>\<open>for i <= j && !data.Less(j, a) { j-- }\<close>:
\<close>

function scanUp :: "('a \<Rightarrow> 'a \<Rightarrow> bool) \<Rightarrow> 'a list \<Rightarrow> int \<Rightarrow> int \<Rightarrow> int \<Rightarrow> int" where
  "scanUp lt xs a i j =
     (if i \<le> j \<and> Less lt xs i a then scanUp lt xs a (i + 1) j else i)"
  by pat_completeness auto
termination
  by (relation "measure (\<lambda>(lt, xs, a, i, j). nat (j + 1 - i))") auto

declare scanUp.simps [simp del]

function scanDown :: "('a \<Rightarrow> 'a \<Rightarrow> bool) \<Rightarrow> 'a list \<Rightarrow> int \<Rightarrow> int \<Rightarrow> int \<Rightarrow> int" where
  "scanDown lt xs a i j =
     (if i \<le> j \<and> \<not> Less lt xs j a then scanDown lt xs a i (j - 1) else j)"
  by pat_completeness auto
termination
  by (relation "measure (\<lambda>(lt, xs, a, i, j). nat (j + 1 - i))") auto

declare scanDown.simps [simp del]



text \<open>
  Where the scans stop; the facts below bound the index \<^verbatim>\<open>partition_func\<close> returns, which
  is what the recursion of \<^verbatim>\<open>pdqsort_func\<close> needs to terminate.
\<close>

lemma scanUp_ge: "i \<le> scanUp lt xs a i j"
  by (induction lt xs a i j rule: scanUp.induct) (subst scanUp.simps, auto)

lemma scanUp_le: "i \<le> j + 1 \<Longrightarrow> scanUp lt xs a i j \<le> j + 1"
  by (induction lt xs a i j rule: scanUp.induct) (subst scanUp.simps, auto)

lemma scanDown_le: "scanDown lt xs a i j \<le> j"
  by (induction lt xs a i j rule: scanDown.induct) (subst scanDown.simps, auto)

lemma scanDown_ge: "i \<le> j + 1 \<Longrightarrow> i - 1 \<le> scanDown lt xs a i j"
  by (induction lt xs a i j rule: scanDown.induct) (subst scanDown.simps, auto)

function partitionLoop :: "('a \<Rightarrow> 'a \<Rightarrow> bool) \<Rightarrow> int \<Rightarrow> 'a list \<Rightarrow> int \<Rightarrow> int \<Rightarrow> 'a list \<times> int" where
  "partitionLoop lt a xs i j =
     (let i1 = scanUp lt xs a i j; j1 = scanDown lt xs a i1 j in
      if i1 > j1 then (xs, j1)
      else partitionLoop lt a (Swap xs i1 j1) (i1 + 1) (j1 - 1))"
  by pat_completeness auto
termination
proof (relation "measure (\<lambda>(lt, a, xs, i, j). nat (j + 1 - i))", goal_cases)
  case 1
  show ?case by simp
next
  case (2 lt a xs i j i1 j1)
  have "i \<le> i1" using 2 by (simp add: scanUp_ge)
  moreover have "j1 \<le> j" using 2 by (simp add: scanDown_le)
  ultimately show ?case using 2 by simp
qed

declare partitionLoop.simps [simp del]

definition partition_func :: "('a \<Rightarrow> 'a \<Rightarrow> bool) \<Rightarrow> 'a list \<Rightarrow> int \<Rightarrow> int \<Rightarrow> int \<Rightarrow> 'a list \<times> int \<times> bool" where
  "partition_func lt xs0 a b pivot =
     (let xs = Swap xs0 a pivot;
          i = scanUp lt xs a (a + 1) (b - 1);
          j = scanDown lt xs a i (b - 1)
      in if i > j then (Swap xs j a, j, True)
         else (case partitionLoop lt a (Swap xs i j) (i + 1) (j - 1) of
                 (xs', j') \<Rightarrow> (Swap xs' j' a, j', False)))"

text \<open>
  \<^verbatim>\<open>partitionEqual_func\<close>, with the scans
  \<^verbatim>\<open>for i <= j && !data.Less(a, i) { i++ }\<close> and \<^verbatim>\<open>for i <= j && data.Less(a, j) { j-- }\<close>.
\<close>

function scanUpEq :: "('a \<Rightarrow> 'a \<Rightarrow> bool) \<Rightarrow> 'a list \<Rightarrow> int \<Rightarrow> int \<Rightarrow> int \<Rightarrow> int" where
  "scanUpEq lt xs a i j =
     (if i \<le> j \<and> \<not> Less lt xs a i then scanUpEq lt xs a (i + 1) j else i)"
  by pat_completeness auto
termination
  by (relation "measure (\<lambda>(lt, xs, a, i, j). nat (j + 1 - i))") auto

declare scanUpEq.simps [simp del]

function scanDownEq :: "('a \<Rightarrow> 'a \<Rightarrow> bool) \<Rightarrow> 'a list \<Rightarrow> int \<Rightarrow> int \<Rightarrow> int \<Rightarrow> int" where
  "scanDownEq lt xs a i j =
     (if i \<le> j \<and> Less lt xs a j then scanDownEq lt xs a i (j - 1) else j)"
  by pat_completeness auto
termination
  by (relation "measure (\<lambda>(lt, xs, a, i, j). nat (j + 1 - i))") auto

declare scanDownEq.simps [simp del]

lemma scanUpEq_ge: "i \<le> scanUpEq lt xs a i j"
  by (induction lt xs a i j rule: scanUpEq.induct) (subst scanUpEq.simps, auto)

lemma scanDownEq_le: "scanDownEq lt xs a i j \<le> j"
  by (induction lt xs a i j rule: scanDownEq.induct) (subst scanDownEq.simps, auto)

function partitionEqualLoop :: "('a \<Rightarrow> 'a \<Rightarrow> bool) \<Rightarrow> int \<Rightarrow> 'a list \<Rightarrow> int \<Rightarrow> int \<Rightarrow> 'a list \<times> int" where
  "partitionEqualLoop lt a xs i j =
     (let i1 = scanUpEq lt xs a i j; j1 = scanDownEq lt xs a i1 j in
      if i1 > j1 then (xs, i1)
      else partitionEqualLoop lt a (Swap xs i1 j1) (i1 + 1) (j1 - 1))"
  by pat_completeness auto
termination
proof (relation "measure (\<lambda>(lt, a, xs, i, j). nat (j + 1 - i))", goal_cases)
  case 1
  show ?case by simp
next
  case (2 lt a xs i j i1 j1)
  have "i \<le> i1" using 2 by (simp add: scanUpEq_ge)
  moreover have "j1 \<le> j" using 2 by (simp add: scanDownEq_le)
  ultimately show ?case using 2 by simp
qed

declare partitionEqualLoop.simps [simp del]

definition partitionEqual_func :: "('a \<Rightarrow> 'a \<Rightarrow> bool) \<Rightarrow> 'a list \<Rightarrow> int \<Rightarrow> int \<Rightarrow> int \<Rightarrow> 'a list \<times> int" where
  "partitionEqual_func lt xs a b pivot = partitionEqualLoop lt a (Swap xs a pivot) (a + 1) (b - 1)"


lemma scanUp_stop: "j < scanUp lt xs a i j \<or> \<not> Less lt xs (scanUp lt xs a i j) a"
  by (induction lt xs a i j rule: scanUp.induct) (subst (1 2) scanUp.simps, auto)

lemma scanDown_stop: "scanDown lt xs a i j < i \<or> Less lt xs (scanDown lt xs a i j) a"
  by (induction lt xs a i j rule: scanDown.induct) (subst (1 2) scanDown.simps, auto)

lemma partitionLoop_le: "snd (partitionLoop lt a xs i j) \<le> j"
proof (induction lt a xs i j rule: partitionLoop.induct)
  case (1 lt a xs i j)
  define i1 where "i1 = scanUp lt xs a i j"
  define j1 where "j1 = scanDown lt xs a i1 j"
  have d: "j1 \<le> j" unfolding j1_def by (rule scanDown_le)
  show ?case
  proof (cases "i1 > j1")
    case True
    then show ?thesis
      using d by (subst partitionLoop.simps) (simp add: Let_def i1_def j1_def)
  next
    case False
    then have "snd (partitionLoop lt a (Swap xs i1 j1) (i1 + 1) (j1 - 1)) \<le> j1 - 1"
      using 1 [of i1 j1] by (simp add: i1_def j1_def)
    then show ?thesis
      using d False by (subst partitionLoop.simps) (simp add: Let_def i1_def j1_def)
  qed
qed

lemma partitionLoop_ge: "i \<le> j + 1 \<Longrightarrow> i - 1 \<le> snd (partitionLoop lt a xs i j)"
proof (induction lt a xs i j rule: partitionLoop.induct)
  case (1 lt a xs i j)
  define i1 where "i1 = scanUp lt xs a i j"
  define j1 where "j1 = scanDown lt xs a i1 j"
  have u: "i \<le> i1" unfolding i1_def by (rule scanUp_ge)
  have u': "i1 \<le> j + 1" unfolding i1_def using 1(2) by (rule scanUp_le)
  have d: "i1 - 1 \<le> j1" unfolding j1_def using u' by (rule scanDown_ge)
  have su: "j < i1 \<or> \<not> Less lt xs i1 a" unfolding i1_def by (rule scanUp_stop)
  have sd: "j1 < i1 \<or> Less lt xs j1 a" unfolding j1_def by (rule scanDown_stop)
  have dj: "j1 \<le> j" unfolding j1_def by (rule scanDown_le)
  show ?case
  proof (cases "i1 > j1")
    case True
    then show ?thesis
      using u d by (subst partitionLoop.simps) (simp add: Let_def i1_def j1_def)
  next
    case False
    have "i1 \<noteq> j1" using su sd dj False by auto
    then have "i1 + 1 \<le> j1 - 1 + 1" using False by simp
    then have "i1 + 1 - 1 \<le> snd (partitionLoop lt a (Swap xs i1 j1) (i1 + 1) (j1 - 1))"
      using 1(1) [of i1 j1] False by (simp add: i1_def j1_def)
    then show ?thesis
      using u False by (subst partitionLoop.simps) (simp add: Let_def i1_def j1_def)
  qed
qed

lemma partition_func_mid:
  assumes "a < b" and "partition_func lt xs a b pivot = (xs', mid, p)"
  shows "a \<le> mid \<and> mid < b"
proof -
  define ys where "ys = Swap xs a pivot"
  define i where "i = scanUp lt ys a (a + 1) (b - 1)"
  define j where "j = scanDown lt ys a i (b - 1)"
  have i: "a + 1 \<le> i" unfolding i_def by (rule scanUp_ge)
  have i': "i \<le> b - 1 + 1" unfolding i_def using assms(1) by (intro scanUp_le) simp
  have j: "j \<le> b - 1" unfolding j_def by (rule scanDown_le)
  have j': "i - 1 \<le> j" unfolding j_def using i' by (rule scanDown_ge)
  have su: "b - 1 < i \<or> \<not> Less lt ys i a" unfolding i_def by (rule scanUp_stop)
  have sd: "j < i \<or> Less lt ys j a" unfolding j_def by (rule scanDown_stop)
  show ?thesis
  proof (cases "i > j")
    case True
    then have "mid = j"
      using assms(2) by (simp add: partition_func_def Let_def ys_def i_def j_def)
    then show ?thesis using i j j' by simp
  next
    case False
    define r where "r = partitionLoop lt a (Swap ys i j) (i + 1) (j - 1)"
    have "mid = snd r"
      using assms(2) False
      by (simp add: partition_func_def Let_def ys_def i_def j_def r_def split: prod.splits)
    moreover have "snd r \<le> j - 1" unfolding r_def by (rule partitionLoop_le)
    moreover have "i \<noteq> j" using su sd j False by auto
    then have "i + 1 - 1 \<le> snd r" unfolding r_def using False by (intro partitionLoop_ge) simp
    ultimately show ?thesis using i j by simp
  qed
qed

lemma partitionEqualLoop_ge: "i \<le> snd (partitionEqualLoop lt a xs i j)"
proof (induction lt a xs i j rule: partitionEqualLoop.induct)
  case (1 lt a xs i j)
  define i1 where "i1 = scanUpEq lt xs a i j"
  define j1 where "j1 = scanDownEq lt xs a i1 j"
  have u: "i \<le> i1" unfolding i1_def by (rule scanUpEq_ge)
  show ?case
  proof (cases "i1 > j1")
    case True
    then show ?thesis
      using u by (subst partitionEqualLoop.simps) (simp add: Let_def i1_def j1_def)
  next
    case False
    then have "i1 + 1 \<le> snd (partitionEqualLoop lt a (Swap xs i1 j1) (i1 + 1) (j1 - 1))"
      using 1 [of i1 j1] by (simp add: i1_def j1_def)
    then show ?thesis
      using u False by (subst partitionEqualLoop.simps) (simp add: Let_def i1_def j1_def)
  qed
qed

lemma partitionEqual_func_mid:
  "partitionEqual_func lt xs a b pivot = (xs', mid) \<Longrightarrow> a + 1 \<le> mid"
  using partitionEqualLoop_ge [of "a + 1" lt a "Swap xs a pivot" "b - 1"]
  by (simp add: partitionEqual_func_def)

subsection \<open>choosePivot_func\<close>

text \<open>
  \<^verbatim>\<open>order2_func\<close>, \<^verbatim>\<open>median_func\<close> and \<^verbatim>\<open>medianAdjacent_func\<close> count their swaps in
  a variable passed by pointer; here the count is passed and returned.
\<close>

datatype sortedHint = unknownHint | increasingHint | decreasingHint

definition order2_func :: "('a \<Rightarrow> 'a \<Rightarrow> bool) \<Rightarrow> 'a list \<Rightarrow> int \<Rightarrow> int \<Rightarrow> int \<Rightarrow> int \<times> int \<times> int" where
  "order2_func lt xs a b swaps = (if Less lt xs b a then (b, a, swaps + 1) else (a, b, swaps))"

definition median_func :: "('a \<Rightarrow> 'a \<Rightarrow> bool) \<Rightarrow> 'a list \<Rightarrow> int \<Rightarrow> int \<Rightarrow> int \<Rightarrow> int \<Rightarrow> int \<times> int" where
  "median_func lt xs a b c swaps =
     (case order2_func lt xs a b swaps of (a1, b1, s1) \<Rightarrow>
      case order2_func lt xs b1 c s1 of (b2, c2, s2) \<Rightarrow>
      case order2_func lt xs a1 b2 s2 of (a3, b3, s3) \<Rightarrow> (b3, s3))"

definition medianAdjacent_func :: "('a \<Rightarrow> 'a \<Rightarrow> bool) \<Rightarrow> 'a list \<Rightarrow> int \<Rightarrow> int \<Rightarrow> int \<times> int" where
  "medianAdjacent_func lt xs a swaps = median_func lt xs (a - 1) a (a + 1) swaps"

definition choosePivot_func :: "('a \<Rightarrow> 'a \<Rightarrow> bool) \<Rightarrow> 'a list \<Rightarrow> int \<Rightarrow> int \<Rightarrow> int \<times> sortedHint" where
  "choosePivot_func lt xs a b =
     (let l = b - a;
          i = a + quo l 4 * 1;
          j = a + quo l 4 * 2;
          k = a + quo l 4 * 3;
          (j', swaps) =
            (if l \<ge> 8 then
               (if l \<ge> 50 then
                  (case medianAdjacent_func lt xs i 0 of (i1, s1) \<Rightarrow>
                   case medianAdjacent_func lt xs j s1 of (j1, s2) \<Rightarrow>
                   case medianAdjacent_func lt xs k s2 of (k1, s3) \<Rightarrow>
                     median_func lt xs i1 j1 k1 s3)
                else median_func lt xs i j k 0)
             else (j, 0))
      in if swaps = 0 then (j', increasingHint)
         else if swaps = 4 * 3 then (j', decreasingHint)
         else (j', unknownHint))"

function reverseRange_loop :: "int \<Rightarrow> int \<Rightarrow> 'a list \<Rightarrow> 'a list" where
  "reverseRange_loop i j xs =
     (if i < j then reverseRange_loop (i + 1) (j - 1) (Swap xs i j) else xs)"
  by pat_completeness auto
termination
  by (relation "measure (\<lambda>(i, j, xs). nat (j - i))") auto

declare reverseRange_loop.simps [simp del]

definition reverseRange_func :: "'a list \<Rightarrow> int \<Rightarrow> int \<Rightarrow> 'a list" where
  "reverseRange_func xs a b = reverseRange_loop a (b - 1) xs"

subsection \<open>partialInsertionSort_func\<close>

text \<open>
  At most five (\<^verbatim>\<open>maxSteps\<close>) out-of-order pairs are repaired, and none on a range shorter
  than 50 (\<^verbatim>\<open>shortestShifting\<close>). The result carries the flag the Go function returns.
\<close>

function unorderedFrom :: "('a \<Rightarrow> 'a \<Rightarrow> bool) \<Rightarrow> 'a list \<Rightarrow> int \<Rightarrow> int \<Rightarrow> int" where
  "unorderedFrom lt xs b i =
     (if i < b \<and> \<not> Less lt xs i (i - 1) then unorderedFrom lt xs b (i + 1) else i)"
  by pat_completeness auto
termination
  by (relation "measure (\<lambda>(lt, xs, b, i). nat (b - i))") auto

declare unorderedFrom.simps [simp del]

function shiftLeft :: "('a \<Rightarrow> 'a \<Rightarrow> bool) \<Rightarrow> int \<Rightarrow> 'a list \<Rightarrow> 'a list" where
  "shiftLeft lt j xs =
     (if j \<ge> 1 then
        (if \<not> Less lt xs j (j - 1) then xs else shiftLeft lt (j - 1) (Swap xs j (j - 1)))
      else xs)"
  by pat_completeness auto
termination
  by (relation "measure (\<lambda>(lt, j, xs). nat j)") auto

declare shiftLeft.simps [simp del]

function shiftRight :: "('a \<Rightarrow> 'a \<Rightarrow> bool) \<Rightarrow> int \<Rightarrow> int \<Rightarrow> 'a list \<Rightarrow> 'a list" where
  "shiftRight lt b j xs =
     (if j < b then
        (if \<not> Less lt xs j (j - 1) then xs else shiftRight lt b (j + 1) (Swap xs j (j - 1)))
      else xs)"
  by pat_completeness auto
termination
  by (relation "measure (\<lambda>(lt, b, j, xs). nat (b - j))") auto

declare shiftRight.simps [simp del]

function partialInsertionSort_loop ::
  "('a \<Rightarrow> 'a \<Rightarrow> bool) \<Rightarrow> int \<Rightarrow> int \<Rightarrow> int \<Rightarrow> int \<Rightarrow> 'a list \<Rightarrow> 'a list \<times> bool" where
  "partialInsertionSort_loop lt a b j i xs =
     (if j < 5 then
        (let i1 = unorderedFrom lt xs b i in
         if i1 = b then (xs, True)
         else if b - a < 50 then (xs, False)
         else
           (let xs1 = Swap xs i1 (i1 - 1);
                xs2 = (if i1 - a \<ge> 2 then shiftLeft lt (i1 - 1) xs1 else xs1);
                xs3 = (if b - i1 \<ge> 2 then shiftRight lt b (i1 + 1) xs2 else xs2)
            in partialInsertionSort_loop lt a b (j + 1) i1 xs3))
      else (xs, False))"
  by pat_completeness auto
termination
  by (relation "measure (\<lambda>(lt, a, b, j, i, xs). nat (5 - j))") auto

declare partialInsertionSort_loop.simps [simp del]

definition partialInsertionSort_func :: "('a \<Rightarrow> 'a \<Rightarrow> bool) \<Rightarrow> 'a list \<Rightarrow> int \<Rightarrow> int \<Rightarrow> 'a list \<times> bool" where
  "partialInsertionSort_func lt xs a b = partialInsertionSort_loop lt a b 0 (a + 1) xs"

subsection \<open>breakPatterns_func\<close>

text \<open>
  \<^verbatim>\<open>bits.Len\<close>, the \<^verbatim>\<open>xorshift\<close> generator seeded with the length, and the three swaps
  around the middle of the range: the positions \<open>a + (n / 4) * 2 - 1\<close>, \<open>a + (n / 4) * 2\<close> and
  \<open>a + (n / 4) * 2 + 1\<close> are exchanged with pseudo-random positions of the range.
\<close>

fun bits_Len :: "nat \<Rightarrow> nat" where
  "bits_Len n = (if n = 0 then 0 else Suc (bits_Len (n div 2)))"

declare bits_Len.simps [simp del]

definition xorshift_Next :: "64 word \<Rightarrow> 64 word" where
  "xorshift_Next r =
     (let r1 = r XOR push_bit 13 r;
          r2 = r1 XOR drop_bit 7 r1;
          r3 = r2 XOR push_bit 17 r2
      in r3)"

definition nextPowerOfTwo :: "int \<Rightarrow> 64 word" where
  "nextPowerOfTwo n = push_bit (bits_Len (nat n)) 1"

function breakPatterns_loop :: "int \<Rightarrow> int \<Rightarrow> int \<Rightarrow> 64 word \<Rightarrow> 64 word \<Rightarrow> int \<Rightarrow> 'a list \<Rightarrow> 'a list" where
  "breakPatterns_loop a n idx modulus random i xs =
     (if i < 3 then
        (let random' = xorshift_Next random;
             other = uint (random' AND (modulus - 1));
             other' = (if other \<ge> n then other - n else other)
         in breakPatterns_loop a n idx modulus random' (i + 1) (Swap xs (idx + i) (a + other')))
      else xs)"
  by pat_completeness auto
termination
  by (relation "measure (\<lambda>(a, n, idx, modulus, random, i, xs). nat (3 - i))") auto

declare breakPatterns_loop.simps [simp del]

definition breakPatterns_func :: "'a list \<Rightarrow> int \<Rightarrow> int \<Rightarrow> 'a list" where
  "breakPatterns_func xs a b =
     (let n = b - a in
      if n \<ge> 8 then
        breakPatterns_loop a n (a + quo n 4 * 2 - 1) (nextPowerOfTwo n) (word_of_int n) 0 xs
      else xs)"

subsection \<open>pdqsort_func and sort.Slice\<close>

text \<open>
  The loop of \<^verbatim>\<open>pdqsort_func\<close>: a range of at most 12 elements (\<^verbatim>\<open>maxInsertion\<close>) is
  sorted by insertion; otherwise the range is partitioned, the shorter side is sorted by a
  recursive call (which starts with both flags true) and the loop goes on with the longer
  side.
\<close>

function pdqsort_func ::
  "('a \<Rightarrow> 'a \<Rightarrow> bool) \<Rightarrow> 'a list \<Rightarrow> int \<Rightarrow> int \<Rightarrow> int \<Rightarrow> bool \<Rightarrow> bool \<Rightarrow> 'a list" where
  "pdqsort_func lt xs a b limit wasBalanced wasPartitioned =
     (if b - a \<le> 12 then insertionSort_func lt xs a b
      else if limit = 0 then heapSort_func lt xs a b
      else
        (let xs1 = (if \<not> wasBalanced then breakPatterns_func xs a b else xs);
             limit1 = (if \<not> wasBalanced then limit - 1 else limit);
             (pivot0, hint0) = choosePivot_func lt xs1 a b;
             xs2 = (if hint0 = decreasingHint then reverseRange_func xs1 a b else xs1);
             pivot = (if hint0 = decreasingHint then (b - 1) - (pivot0 - a) else pivot0);
             hint = (if hint0 = decreasingHint then increasingHint else hint0);
             (xs3, sorted) =
               (if wasBalanced \<and> wasPartitioned \<and> hint = increasingHint
                then partialInsertionSort_func lt xs2 a b else (xs2, False))
         in if sorted then xs3
            else if a > 0 \<and> \<not> Less lt xs3 (a - 1) pivot then
              (case partitionEqual_func lt xs3 a b pivot of
                 (xs4, mid) \<Rightarrow> pdqsort_func lt xs4 mid b limit1 wasBalanced wasPartitioned)
            else
              (case partition_func lt xs3 a b pivot of
                 (xs4, mid, alreadyPartitioned) \<Rightarrow>
                   (if mid - a < b - mid then
                      pdqsort_func lt (pdqsort_func lt xs4 a mid limit1 True True)
                        (mid + 1) b limit1 (mid - a \<ge> quo (b - a) 8) alreadyPartitioned
                    else
                      pdqsort_func lt (pdqsort_func lt xs4 (mid + 1) b limit1 True True)
                        a mid limit1 (b - mid \<ge> quo (b - a) 8) alreadyPartitioned))))"
  by pat_completeness auto
termination
proof (relation "measure (\<lambda>(lt, xs, a, b, limit, wb, wp). nat (b - a))", goal_cases)
  case 1
  show ?case by simp
next
  case 2
  then show ?case by (auto dest: partitionEqual_func_mid [OF sym])
next
  case 3
  then show ?case by (auto dest!: partition_func_mid [OF _ sym, rotated])
next
  case 4
  then show ?case by (auto dest!: partition_func_mid [OF _ sym, rotated])
next
  case 5
  then show ?case by (auto dest!: partition_func_mid [OF _ sym, rotated])
next
  case 6
  then show ?case by (auto dest!: partition_func_mid [OF _ sym, rotated])
qed

declare pdqsort_func.simps [simp del]

definition sort_Slice :: "('a \<Rightarrow> 'a \<Rightarrow> bool) \<Rightarrow> 'a list \<Rightarrow> 'a list" where
  "sort_Slice lt xs =
     pdqsort_func lt xs 0 (int (length xs)) (int (bits_Len (length xs))) True True"


section \<open>internal/processes.go\<close>

text \<open>
  \<^verbatim>\<open>type ProcessInfo struct\<close>. The two percentages are a \<^verbatim>\<open>float64\<close> and a \<^verbatim>\<open>float32\<close>.
\<close>

record ProcessInfo =
  PID :: int
  Name :: string
  Username :: string
  CPUPercent :: real
  MemPercent :: real
  MemoryMB :: uint64
  Status :: string
  CreateTime :: int
  NumThreads :: int
  CommandLine :: string

text \<open>
  A \<^verbatim>\<open>*process.Process\<close> of gopsutil, as what its methods return when \<^verbatim>\<open>getProcessInfo\<close>
  calls them: \<open>Inl\<close> is a non-nil \<^verbatim>\<open>err\<close>. \<open>procMemoryInfo\<close> is the \<^verbatim>\<open>RSS\<close> of the returned
  record.
\<close>

record Process =
  Pid :: int
  procName :: "error + string"
  procUsername :: "error + string"
  procCPUPercent :: "error + real"
  procMemoryPercent :: "error + real"
  procMemoryInfo :: "error + uint64"
  procStatus :: "error + string list"
  procCreateTime :: "error + int"
  procNumThreads :: "error + int"
  procCmdline :: "error + string"

text \<open>\<^verbatim>\<open>strings.Join\<close>.\<close>

fun Join :: "string list \<Rightarrow> string \<Rightarrow> string" where
  "Join [] sep = []"
| "Join [x] sep = x"
| "Join (x # y # ys) sep = x @ sep @ Join (y # ys) sep"

text \<open>A field whose call fails keeps the zero value of its type.\<close>

definition orZero :: "'a \<Rightarrow> error + 'a \<Rightarrow> 'a" where
  "orZero z r = (case r of Inl e \<Rightarrow> z | Inr v \<Rightarrow> v)"

text \<open>
  The last block of \<^verbatim>\<open>getProcessInfo\<close>:
  \<^verbatim>\<open>if cmdline, err := proc.Cmdline(); err == nil && len(cmdline) > 0 { ... } else { info.CommandLine = info.Name }\<close>
\<close>

definition commandLineOf :: "string \<Rightarrow> error + string \<Rightarrow> string" where
  "commandLineOf name r =
     (case r of
        Inl e \<Rightarrow> name
      | Inr cmdline \<Rightarrow>
          if length cmdline > 0
          then (if length cmdline > 100 then take 100 cmdline @ ''...'' else cmdline)
          else name)"

text \<open>\<^verbatim>\<open>getProcessInfo\<close>; the error it returns is always \<^verbatim>\<open>nil\<close>.\<close>

definition getProcessInfo :: "Process \<Rightarrow> error + ProcessInfo" where
  "getProcessInfo proc =
     Inr \<lparr>PID = Pid proc,
          Name = orZero [] (procName proc),
          Username = (case procUsername proc of Inr u \<Rightarrow> u | Inl e \<Rightarrow> ''unknown''),
          CPUPercent = orZero 0 (procCPUPercent proc),
          MemPercent = orZero 0 (procMemoryPercent proc),
          MemoryMB = (case procMemoryInfo proc of Inr rss \<Rightarrow> rss div 1024 div 1024 | Inl e \<Rightarrow> 0),
          Status = (case procStatus proc of Inr st \<Rightarrow> Join st '','' | Inl e \<Rightarrow> []),
          CreateTime = orZero 0 (procCreateTime proc),
          NumThreads = orZero 0 (procNumThreads proc),
          CommandLine = commandLineOf (orZero [] (procName proc)) (procCmdline proc)\<rparr>"

text \<open>The two comparisons \<^verbatim>\<open>getTopProcesses\<close> hands to \<^verbatim>\<open>sort.Slice\<close>.\<close>

definition cpuLess :: "ProcessInfo \<Rightarrow> ProcessInfo \<Rightarrow> bool" where
  "cpuLess x y = (CPUPercent x > CPUPercent y)"

definition memLess :: "ProcessInfo \<Rightarrow> ProcessInfo \<Rightarrow> bool" where
  "memLess x y = (MemPercent x > MemPercent y)"

text \<open>
  \<^verbatim>\<open>getTopProcesses\<close>. The copy is sorted when \<open>sortBy\<close> is one of the two known words and
  left as it is otherwise. \<^verbatim>\<open>sorted[:limit]\<close> panics for a negative \<open>limit\<close>.
\<close>

definition getTopProcesses ::
  "((ProcessInfo \<Rightarrow> ProcessInfo \<Rightarrow> bool) \<Rightarrow> ProcessInfo list \<Rightarrow> ProcessInfo list)
   \<Rightarrow> ProcessInfo list \<Rightarrow> string \<Rightarrow> int \<Rightarrow> error + ProcessInfo list" where
  "getTopProcesses srt processes sortBy limit =
     (let sorted = (if sortBy = ''cpu'' then srt cpuLess processes
                    else if sortBy = ''memory'' then srt memLess processes
                    else processes)
      in if int (length sorted) < limit then Inr sorted
         else if limit < 0 then Inl SliceBoundsOutOfRange
         else Inr (take (nat limit) sorted))"

text \<open>
  \<^verbatim>\<open>type ProcessStats struct\<close> and \<^verbatim>\<open>GetProcessStats\<close>. The field \<^verbatim>\<open>Timestamp\<close> is
  \<open>ProcTimestamp\<close> here, and that of \<^verbatim>\<open>NetworkStats\<close> below is \<open>StatsTimestamp\<close>: three
  structs of the package have a field of that name.
\<close>

record ProcessStats =
  TotalProcesses :: int
  RunningProcs :: int
  SleepingProcs :: int
  TopCPU :: "ProcessInfo list"
  TopMemory :: "ProcessInfo list"
  AllProcesses :: "ProcessInfo list"
  ProcTimestamp :: Time

text \<open>
  The loop over the process ids: an id whose \<^verbatim>\<open>process.NewProcess\<close> fails is skipped. The
  accumulator is the slice and the two counters.
\<close>

fun collectProcesses ::
  "(error + Process) list \<Rightarrow> ProcessInfo list \<times> int \<times> int \<Rightarrow> ProcessInfo list \<times> int \<times> int" where
  "collectProcesses [] acc = acc"
| "collectProcesses (r # rs) (processes, runningCount, sleepingCount) =
     (case r of
        Inl e \<Rightarrow> collectProcesses rs (processes, runningCount, sleepingCount)
      | Inr proc \<Rightarrow>
          (case getProcessInfo proc of
             Inl e \<Rightarrow> collectProcesses rs (processes, runningCount, sleepingCount)
           | Inr procInfo \<Rightarrow>
               collectProcesses rs
                 (processes @ [procInfo],
                  (if Status procInfo = ''R'' \<or> Status procInfo = ''running''
                   then runningCount + 1 else runningCount),
                  (if Status procInfo = ''S'' \<or> Status procInfo = ''sleeping''
                   then sleepingCount + 1 else sleepingCount))))"

definition GetProcessStats ::
  "((ProcessInfo \<Rightarrow> ProcessInfo \<Rightarrow> bool) \<Rightarrow> ProcessInfo list \<Rightarrow> ProcessInfo list)
   \<Rightarrow> Time \<Rightarrow> error + (error + Process) list \<Rightarrow> error + ProcessStats" where
  "GetProcessStats srt now pids =
     (case pids of
        Inl e \<Rightarrow> Inl e
      | Inr rs \<Rightarrow>
          (case collectProcesses rs ([], 0, 0) of
             (processes, runningCount, sleepingCount) \<Rightarrow>
               (case getTopProcesses srt processes ''cpu'' 10 of
                  Inl e \<Rightarrow> Inl e
                | Inr topCPU \<Rightarrow>
                    (case getTopProcesses srt processes ''memory'' 10 of
                       Inl e \<Rightarrow> Inl e
                     | Inr topMemory \<Rightarrow>
                         Inr \<lparr>TotalProcesses = int (length processes),
                              RunningProcs = runningCount,
                              SleepingProcs = sleepingCount,
                              TopCPU = topCPU,
                              TopMemory = topMemory,
                              AllProcesses = processes,
                              ProcTimestamp = now\<rparr>))))"

section \<open>\<^verbatim>\<open>float64\<close> arithmetic\<close>

text \<open>
  A \<^verbatim>\<open>float64\<close> is the real number it denotes. Converting an integer to \<^verbatim>\<open>float64\<close>, adding
  and dividing give the exact result rounded to the nearest number with a significand of 53
  bits, ties going to the even significand (IEEE 754 binary64, the rounding Go uses).
  \<open>expo x\<close> is the binary exponent of a positive \<open>x\<close>, the \<open>e\<close> with \<open>2^e \<le> x < 2^(e+1)\<close>;
  \<open>float64 x\<close> is \<open>x\<close> rounded. The exponent range of the format is not modelled: the
  non-zero numbers \<^verbatim>\<open>network.go\<close> computes from 64-bit counters and a positive number of
  nanoseconds lie between \<open>2^-44\<close> and \<open>2^94\<close>, where every \<^verbatim>\<open>float64\<close> is a normal number.
\<close>

function expUp :: "real \<Rightarrow> int" where
  "expUp x = (if 2 \<le> x then expUp (x / 2) + 1 else 0)"
  by pat_completeness auto
termination
proof (relation "measure (\<lambda>x. nat \<lfloor>x\<rfloor>)")
  show "wf (measure (\<lambda>x::real. nat \<lfloor>x\<rfloor>))" by simp
next
  fix x :: real
  assume "2 \<le> x"
  then have "\<lfloor>x / 2\<rfloor> < \<lfloor>x\<rfloor>" by linarith
  moreover have "0 < \<lfloor>x\<rfloor>" using \<open>2 \<le> x\<close> by linarith
  ultimately show "(x / 2, x) \<in> measure (\<lambda>x. nat \<lfloor>x\<rfloor>)" by simp
qed

declare expUp.simps [simp del]

function expDown :: "real \<Rightarrow> int" where
  "expDown x = (if 0 < x \<and> x < 1 then expDown (2 * x) - 1 else 0)"
  by pat_completeness auto
termination
proof (relation "measure (\<lambda>x. nat \<lceil>1 / x\<rceil>)")
  show "wf (measure (\<lambda>x::real. nat \<lceil>1 / x\<rceil>))" by simp
next
  fix x :: real
  assume a: "0 < x \<and> x < 1"
  then have y: "1 < 1 / x" by simp
  then have c2: "2 \<le> \<lceil>1 / x\<rceil>" by linarith
  have "1 / (2 * x) = (1 / x) / 2" by simp
  also have "\<dots> \<le> of_int \<lceil>1 / x\<rceil> / 2" by (simp add: divide_right_mono)
  also have "\<dots> \<le> of_int (\<lceil>1 / x\<rceil> - 1)" using c2 by simp
  finally have "\<lceil>1 / (2 * x)\<rceil> \<le> \<lceil>1 / x\<rceil> - 1" by (simp only: ceiling_le_iff)
  then show "(2 * x, x) \<in> measure (\<lambda>x. nat \<lceil>1 / x\<rceil>)" using c2 a by simp
qed

declare expDown.simps [simp del]

definition expo :: "real \<Rightarrow> int" where
  "expo x = (if 1 \<le> x then expUp x else expDown x)"

text \<open>Rounding to the nearest integer, a tie going to the even one.\<close>

definition roundHalfEven :: "real \<Rightarrow> int" where
  "roundHalfEven m =
     (let f = \<lfloor>m\<rfloor>; d = m - of_int f
      in if d < 1 / 2 then f else if 1 / 2 < d then f + 1 else if even f then f else f + 1)"

text \<open>
  \<open>float64 x\<close>: with \<open>e\<close> the exponent of \<open>\<bar>x\<bar>\<close>, the significand \<open>\<bar>x\<bar> / 2^(e-52)\<close> lies
  between \<open>2^52\<close> and \<open>2^53\<close> and is rounded to an integer.
\<close>

definition float64 :: "real \<Rightarrow> real" where
  "float64 x =
     (if x = 0 then 0
      else (let e = expo \<bar>x\<bar>; u = 2 powi (e - 52)
            in sgn x * of_int (roundHalfEven (\<bar>x\<bar> / u)) * u))"

text \<open>
  The \<^verbatim>\<open>float64\<close> operators \<^verbatim>\<open>+\<close> and \<^verbatim>\<open>/\<close>. The divisors of the program are the constants
  \<^verbatim>\<open>1e9\<close> and \<^verbatim>\<open>1024\<close> and an elapsed time that has been tested to be positive.
\<close>

definition fadd :: "real \<Rightarrow> real \<Rightarrow> real" where
  "fadd x y = float64 (x + y)"

definition fdiv :: "real \<Rightarrow> real \<Rightarrow> real" where
  "fdiv x y = float64 (x / y)"

text \<open>Go's \<^verbatim>\<open>%\<close> on integers: the remainder of the division that truncates towards zero.\<close>

definition rem :: "int \<Rightarrow> int \<Rightarrow> int" where
  "rem a b = a - quo a b * b"

section \<open>internal/network.go\<close>

text \<open>
  \<^verbatim>\<open>type NetworkInterface struct\<close>; its \<^verbatim>\<open>Name\<close> is \<open>IfaceName\<close> here, since \<open>Name\<close> is the
  field of \<^typ>\<open>ProcessInfo\<close>.
\<close>

record NetworkInterface =
  IfaceName :: string
  BytesSent :: uint64
  BytesRecv :: uint64
  PacketsSent :: uint64
  PacketsRecv :: uint64
  Errin :: uint64
  Errout :: uint64
  Dropin :: uint64
  Dropout :: uint64
  Speed :: uint64
  IsUp :: bool
  HasTraffic :: bool
  LastUpdate :: Time

record NetworkStats =
  Interfaces :: "NetworkInterface list"
  TotalSent :: uint64
  TotalRecv :: uint64
  ActiveIfaces :: int
  Connections :: int
  StatsTimestamp :: Time

record NetworkSpeed =
  Interface :: string
  UploadKBps :: real
  DownloadKBps :: real
  Timestamp :: Time

text \<open>
  A row of \<^verbatim>\<open>net.IOCounters(true)\<close> of gopsutil, and what one poll of the operating system
  gives \<^verbatim>\<open>GetNetworkStats\<close>: the rows (or an error), the statuses of the connections of
  \<^verbatim>\<open>net.Connections("all")\<close> (or an error), the clock reading taken at the start, and the
  reading taken when the \<open>i\<close>-th row is copied.
\<close>

record IOCountersStat =
  cName :: string
  cBytesSent :: uint64
  cBytesRecv :: uint64
  cPacketsSent :: uint64
  cPacketsRecv :: uint64
  cErrin :: uint64
  cErrout :: uint64
  cDropin :: uint64
  cDropout :: uint64

record NetPoll =
  ioCounters :: "error + IOCountersStat list"
  connections :: "error + string list"
  pollTime :: Time
  rowTime :: "nat \<Rightarrow> Time"

text \<open>\<^verbatim>\<open>isLoopbackInterface\<close>: the loop over the three names.\<close>

fun nameAmong :: "string \<Rightarrow> string list \<Rightarrow> bool" where
  "nameAmong name [] = False"
| "nameAmong name (loName # rest) = (if name = loName then True else nameAmong name rest)"

definition isLoopbackInterface :: "string \<Rightarrow> bool" where
  "isLoopbackInterface name = nameAmong name [''lo'', ''lo0'', ''Loopback'']"

text \<open>\<^verbatim>\<open>getConnectionCount\<close>: the connections whose status is \<^verbatim>\<open>ESTABLISHED\<close>.\<close>

fun countEstablished :: "string list \<Rightarrow> int \<Rightarrow> int" where
  "countEstablished [] established = established"
| "countEstablished (st # rest) established =
     countEstablished rest (if st = ''ESTABLISHED'' then established + 1 else established)"

definition getConnectionCount :: "error + string list \<Rightarrow> error + int" where
  "getConnectionCount conns =
     (case conns of Inl e \<Rightarrow> Inl e | Inr sts \<Rightarrow> Inr (countEstablished sts 0))"

text \<open>The \<^verbatim>\<open>NetworkInterface\<close> literal of \<^verbatim>\<open>GetNetworkStats\<close> with the two flags set after it.\<close>

definition mkInterface :: "IOCountersStat \<Rightarrow> Time \<Rightarrow> NetworkInterface" where
  "mkInterface counter t =
     \<lparr>IfaceName = cName counter,
      BytesSent = cBytesSent counter,
      BytesRecv = cBytesRecv counter,
      PacketsSent = cPacketsSent counter,
      PacketsRecv = cPacketsRecv counter,
      Errin = cErrin counter,
      Errout = cErrout counter,
      Dropin = cDropin counter,
      Dropout = cDropout counter,
      Speed = 0,
      IsUp = (cBytesSent counter > 0 \<or> cBytesRecv counter > 0),
      HasTraffic = (cBytesSent counter > 0 \<or> cBytesRecv counter > 0),
      LastUpdate = t\<rparr>"

text \<open>
  The loop over the rows: the accumulator is the slice \<^verbatim>\<open>interfaces\<close>, \<^verbatim>\<open>totalSent\<close>,
  \<^verbatim>\<open>totalRecv\<close> and \<^verbatim>\<open>activeCount\<close>; \<open>k\<close> counts the rows done. The sums are \<^verbatim>\<open>uint64\<close> sums.
\<close>

fun collectInterfaces ::
  "(nat \<Rightarrow> Time) \<Rightarrow> nat \<Rightarrow> IOCountersStat list
   \<Rightarrow> NetworkInterface list \<times> uint64 \<times> uint64 \<times> int
   \<Rightarrow> NetworkInterface list \<times> uint64 \<times> uint64 \<times> int" where
  "collectInterfaces clk k [] acc = acc"
| "collectInterfaces clk k (counter # rest) (interfaces, totalSent, totalRecv, activeCount) =
     (let iface = mkInterface counter (clk k) in
      if \<not> isLoopbackInterface (cName counter) \<and> HasTraffic iface
      then collectInterfaces clk (Suc k) rest
             (interfaces @ [iface], totalSent + cBytesSent counter,
              totalRecv + cBytesRecv counter, activeCount + 1)
      else collectInterfaces clk (Suc k) rest
             (interfaces @ [iface], totalSent, totalRecv, activeCount))"

text \<open>The comparison of the two interface sorts: by total traffic, a \<^verbatim>\<open>uint64\<close> sum.\<close>

definition trafficLess :: "NetworkInterface \<Rightarrow> NetworkInterface \<Rightarrow> bool" where
  "trafficLess x y = (BytesSent x + BytesRecv x > BytesSent y + BytesRecv y)"

definition GetNetworkStats ::
  "((NetworkInterface \<Rightarrow> NetworkInterface \<Rightarrow> bool) \<Rightarrow> NetworkInterface list \<Rightarrow> NetworkInterface list)
   \<Rightarrow> NetPoll \<Rightarrow> error + NetworkStats" where
  "GetNetworkStats srt poll =
     (case ioCounters poll of
        Inl e \<Rightarrow> Inl e
      | Inr rows \<Rightarrow>
          (case collectInterfaces (rowTime poll) 0 rows ([], 0, 0, 0) of
             (interfaces, totalSent, totalRecv, activeCount) \<Rightarrow>
               Inr \<lparr>Interfaces = srt trafficLess interfaces,
                    TotalSent = totalSent,
                    TotalRecv = totalRecv,
                    ActiveIfaces = activeCount,
                    Connections = (case getConnectionCount (connections poll) of
                                     Inl e \<Rightarrow> 0 | Inr n \<Rightarrow> n),
                    StatsTimestamp = pollTime poll\<rparr>))"

text \<open>
  The two package variables of \<^verbatim>\<open>network.go\<close>. \<open>previousNetStats\<close> is a Go map: \<open>None\<close> is the
  \<^verbatim>\<open>nil\<close> map the program starts with, \<open>Some m\<close> a map that has been made.
\<close>

record NetState =
  previousNetStats :: "(string \<rightharpoonup> NetworkInterface) option"
  lastNetworkRead :: Time

text \<open>
  \<^verbatim>\<open>now.Sub(lastNetworkRead).Seconds()\<close>: the difference is a \<^verbatim>\<open>Duration\<close>, which \<^verbatim>\<open>Sub\<close>
  saturates at the two ends of \<^verbatim>\<open>int64\<close>. \<^verbatim>\<open>Seconds\<close> is the library's
  \<^verbatim>\<open>sec := d / Second; nsec := d % Second; return float64(sec) + float64(nsec)/1e9\<close>.
\<close>

definition maxDuration :: Duration where
  "maxDuration = 2 ^ 63 - 1"

definition minDuration :: Duration where
  "minDuration = - (2 ^ 63)"

definition Sub :: "Time \<Rightarrow> Time \<Rightarrow> Duration" where
  "Sub t u =
     (if t - u > maxDuration then maxDuration
      else if t - u < minDuration then minDuration
      else t - u)"

definition Seconds :: "Duration \<Rightarrow> real" where
  "Seconds d =
     (let sec = quo d Second; nsec = rem d Second
      in fadd (float64 (of_int sec)) (fdiv (float64 (of_int nsec)) 1000000000))"

text \<open>
  The body of the loop that computes the speeds, for one interface of the current
  snapshot and its stored predecessor: \<^verbatim>\<open>float64(current.BytesSent - previous.BytesSent)\<close> is
  the conversion of a \<^verbatim>\<open>uint64\<close> difference, \<^verbatim>\<open>(sentDiff / timeDiff) / 1024\<close> two \<^verbatim>\<open>float64\<close>
  divisions.
\<close>

definition speedOf :: "NetworkInterface \<Rightarrow> NetworkInterface \<Rightarrow> real \<Rightarrow> Time \<Rightarrow> NetworkSpeed" where
  "speedOf current previous timeDiff now =
     (let sentDiff = float64 (real (unat (BytesSent current - BytesSent previous)));
          recvDiff = float64 (real (unat (BytesRecv current - BytesRecv previous)))
      in \<lparr>Interface = IfaceName current,
          UploadKBps = fdiv (fdiv sentDiff timeDiff) 1024,
          DownloadKBps = fdiv (fdiv recvDiff timeDiff) 1024,
          Timestamp = now\<rparr>)"

text \<open>
  The loop over the current snapshot. The constant \<^verbatim>\<open>0.1\<close> of the test
  \<^verbatim>\<open>speed.UploadKBps > 0.1 || speed.DownloadKBps > 0.1\<close> is the \<^verbatim>\<open>float64\<close> nearest to one tenth.
\<close>

fun computeSpeeds ::
  "(string \<rightharpoonup> NetworkInterface) \<Rightarrow> real \<Rightarrow> Time \<Rightarrow> NetworkInterface list
   \<Rightarrow> NetworkSpeed list \<Rightarrow> NetworkSpeed list" where
  "computeSpeeds prev timeDiff now [] speeds = speeds"
| "computeSpeeds prev timeDiff now (current # rest) speeds =
     (case prev (IfaceName current) of
        None \<Rightarrow> computeSpeeds prev timeDiff now rest speeds
      | Some previous \<Rightarrow>
          (let speed = speedOf current previous timeDiff now in
           if UploadKBps speed > float64 (1 / 10) \<or> DownloadKBps speed > float64 (1 / 10)
           then computeSpeeds prev timeDiff now rest (speeds @ [speed])
           else computeSpeeds prev timeDiff now rest speeds))"

text \<open>\<^verbatim>\<open>for _, iface := range currentStats.Interfaces { previousNetStats[iface.Name] = iface }\<close>\<close>

fun storeInterfaces ::
  "(string \<rightharpoonup> NetworkInterface) \<Rightarrow> NetworkInterface list \<Rightarrow> (string \<rightharpoonup> NetworkInterface)" where
  "storeInterfaces prev [] = prev"
| "storeInterfaces prev (iface # rest) = storeInterfaces (prev(IfaceName iface \<mapsto> iface)) rest"

text \<open>The comparison of the sort of the rate points: by the \<^verbatim>\<open>float64\<close> sum of the two rates.\<close>

definition speedLess :: "NetworkSpeed \<Rightarrow> NetworkSpeed \<Rightarrow> bool" where
  "speedLess x y =
     (let totalI = fadd (UploadKBps x) (DownloadKBps x);
          totalJ = fadd (UploadKBps y) (DownloadKBps y)
      in totalI > totalJ)"

text \<open>
  \<^verbatim>\<open>GetNetworkSpeeds\<close>. \<open>polled\<close> is what its call of \<^verbatim>\<open>GetNetworkStats\<close> returned, \<open>now\<close> the
  clock reading it takes next. The result is the returned pair, as a sum, and the two
  package variables after the call.
\<close>

definition GetNetworkSpeeds ::
  "((NetworkSpeed \<Rightarrow> NetworkSpeed \<Rightarrow> bool) \<Rightarrow> NetworkSpeed list \<Rightarrow> NetworkSpeed list)
   \<Rightarrow> error + NetworkStats \<Rightarrow> Time \<Rightarrow> NetState \<Rightarrow> (error + NetworkSpeed list) \<times> NetState" where
  "GetNetworkSpeeds srt polled now st =
     (case polled of
        Inl e \<Rightarrow> (Inl e, st)
      | Inr currentStats \<Rightarrow>
          (case previousNetStats st of
             None \<Rightarrow>
               (Inr [],
                \<lparr>previousNetStats = Some (storeInterfaces Map.empty (Interfaces currentStats)),
                 lastNetworkRead = now\<rparr>)
           | Some prev \<Rightarrow>
               (let timeDiff = Seconds (Sub now (lastNetworkRead st)) in
                if timeDiff \<le> 0 then (Inr [], st)
                else
                  (let speeds = computeSpeeds prev timeDiff now (Interfaces currentStats) []
                   in (Inr (srt speedLess speeds),
                       \<lparr>previousNetStats = Some (storeInterfaces prev (Interfaces currentStats)),
                        lastNetworkRead = now\<rparr>)))))"



section \<open>Auxiliary definitions\<close>

text \<open>
  The invariant of the session loop: the refresh interval is a whole number of seconds
  between one and ten, and the first ticker, the one \<^verbatim>\<open>main\<close> selects on, has the period
  it was created with.
\<close>

definition sessionInv :: "World \<Rightarrow> bool" where
  "sessionInv w =
     (Second \<le> refreshRate (app w) \<and> refreshRate (app w) \<le> 10 * Second
      \<and> refreshRate (app w) mod Second = 0
      \<and> tickers w \<noteq> [] \<and> period (tickers w ! 0) = 3 * Second)"

subsection \<open>Example inputs\<close>

text \<open>
  A process whose command line is \<open>cmd\<close>, and the record \<^verbatim>\<open>getProcessInfo\<close> builds for it
  up to the command line.
\<close>

definition exampleProcess :: "error + string \<Rightarrow> Process" where
  "exampleProcess cmd =
     \<lparr>Pid = 1, procName = Inr ''init'', procUsername = Inr ''root'', procCPUPercent = Inr 0,
      procMemoryPercent = Inr 0, procMemoryInfo = Inr 4194304, procStatus = Inr [''S''],
      procCreateTime = Inr 0, procNumThreads = Inr 1, procCmdline = cmd\<rparr>"

definition exampleInfo :: "string \<Rightarrow> ProcessInfo" where
  "exampleInfo cmd =
     \<lparr>PID = 1, Name = ''init'', Username = ''root'', CPUPercent = 0, MemPercent = 0,
      MemoryMB = 4, Status = ''S'', CreateTime = 0, NumThreads = 1, CommandLine = cmd\<rparr>"

text \<open>
  Characters of a command line, as the specification counts them. The text is UTF-8: a
  byte from \<open>0x80\<close> to \<open>0xBF\<close> continues the character that the byte before it belongs to,
  every other byte starts a character. \<open>characterCount\<close> is the number of characters,
  \<open>firstCharacters n\<close> the bytes of the first \<open>n\<close> characters; \<open>eAcute\<close> is the two-byte
  encoding of the letter U+00E9.
\<close>

definition continuationByte :: "char \<Rightarrow> bool" where
  "continuationByte c = (128 \<le> (of_char c :: nat) \<and> (of_char c :: nat) < 192)"

definition characterCount :: "string \<Rightarrow> nat" where
  "characterCount s = length (filter (\<lambda>c. \<not> continuationByte c) s)"

fun firstCharacters :: "nat \<Rightarrow> string \<Rightarrow> string" where
  "firstCharacters n [] = []"
| "firstCharacters n (c # cs) =
     (if continuationByte c then c # firstCharacters n cs
      else (case n of 0 \<Rightarrow> [] | Suc m \<Rightarrow> c # firstCharacters m cs))"

definition eAcute :: string where
  "eAcute = [CHR 0xC3, CHR 0xA9]"

text \<open>
  A row of interface counters with the given name and byte counts, a poll that returns the
  given rows at time \<open>t\<close>, and a \<^typ>\<open>NetworkStats\<close> record.
\<close>

definition row :: "string \<Rightarrow> uint64 \<Rightarrow> uint64 \<Rightarrow> IOCountersStat" where
  "row n s r =
     \<lparr>cName = n, cBytesSent = s, cBytesRecv = r, cPacketsSent = 0, cPacketsRecv = 0,
      cErrin = 0, cErrout = 0, cDropin = 0, cDropout = 0\<rparr>"

definition pollOf :: "IOCountersStat list \<Rightarrow> Time \<Rightarrow> NetPoll" where
  "pollOf rows t =
     \<lparr>ioCounters = Inr rows, connections = Inr [], pollTime = t, rowTime = (\<lambda>k. t)\<rparr>"

definition statsOf :: "NetworkInterface list \<Rightarrow> uint64 \<Rightarrow> uint64 \<Rightarrow> int \<Rightarrow> Time \<Rightarrow> NetworkStats" where
  "statsOf ifs s r n t =
     \<lparr>Interfaces = ifs, TotalSent = s, TotalRecv = r, ActiveIfaces = n, Connections = 0,
      StatsTimestamp = t\<rparr>"

text \<open>
  The state after a first poll at second 5 that saw \<open>eth0\<close> with 1000 bytes sent and 2000
  received.
\<close>

definition baseline :: NetState where
  "baseline =
     \<lparr>previousNetStats = Some [''eth0'' \<mapsto> mkInterface (row ''eth0'' 1000 2000) (5 * Second)],
      lastNetworkRead = 5 * Second\<rparr>"

text \<open>The state after a first poll that saw the given rows at time \<open>t\<close>.\<close>

definition baselineOf :: "IOCountersStat list \<Rightarrow> Time \<Rightarrow> NetState" where
  "baselineOf rows t =
     \<lparr>previousNetStats = Some (storeInterfaces Map.empty (map (\<lambda>r. mkInterface r t) rows)),
      lastNetworkRead = t\<rparr>"

subsection \<open>Ranking: the selected metric and a stable ranking\<close>

text \<open>The metric a selector stands for, and the comparison \<^verbatim>\<open>getTopProcesses\<close> sorts with.\<close>

definition metricOf :: "string \<Rightarrow> ProcessInfo \<Rightarrow> real" where
  "metricOf sortBy p = (if sortBy = ''cpu'' then CPUPercent p else MemPercent p)"


text \<open>
  The ranking in the words of the specification: the first \<open>n\<close> of the processes sorted
  descending by the metric, processes of equal metric in the order of the input. The
  insertion sort \<^const>\<open>sort_key\<close> of the library is stable.
\<close>

definition stableTopN :: "(ProcessInfo \<Rightarrow> real) \<Rightarrow> nat \<Rightarrow> ProcessInfo list \<Rightarrow> ProcessInfo list" where
  "stableTopN metric n ps = take n (sort_key (\<lambda>p. - metric p) ps)"

text \<open>
  Thirteen processes: numbers 1 to 12 are idle, number 13, the last one found, uses one
  percent of the processor.
\<close>

definition procAt :: "int \<Rightarrow> real \<Rightarrow> ProcessInfo" where
  "procAt pid cpu =
     \<lparr>PID = pid, Name = ''worker'', Username = ''root'', CPUPercent = cpu, MemPercent = 0,
      MemoryMB = 0, Status = ''S'', CreateTime = 0, NumThreads = 1, CommandLine = ''worker''\<rparr>"


subsection \<open>Insertion from the right\<close>

text \<open>
  The insertion sort of the runtime, as functions on lists. The sorted prefix is kept
  reversed: \<open>insertLeft\<close> moves the new element past the elements it compares before, and
  \<open>insertAll\<close> inserts the elements of a list one after the other.
\<close>

fun insertLeft :: "('a \<Rightarrow> 'a \<Rightarrow> bool) \<Rightarrow> 'a \<Rightarrow> 'a list \<Rightarrow> 'a list" where
  "insertLeft lt x [] = [x]"
| "insertLeft lt x (y # ys) = (if lt x y then y # insertLeft lt x ys else x # y # ys)"

fun insertAll :: "('a \<Rightarrow> 'a \<Rightarrow> bool) \<Rightarrow> 'a list \<Rightarrow> 'a list \<Rightarrow> 'a list" where
  "insertAll lt acc [] = acc"
| "insertAll lt acc (x # rest) = insertAll lt (insertLeft lt x acc) rest"
section \<open>Rounding to \<^verbatim>\<open>float64\<close>: exponent, sign and monotonicity\<close>

text \<open>Evaluation of the rounding on numerals.\<close>

lemmas float64_simps =
  float64_def fadd_def fdiv_def expo_def expUp.simps expDown.simps roundHalfEven_def

lemma expUp_bounds: "1 \<le> x \<Longrightarrow> 2 powi expUp x \<le> x \<and> x < 2 powi (expUp x + 1)"
proof (induction x rule: expUp.induct)
  case (1 x)
  show ?case
  proof (cases "2 \<le> x")
    case True
    then have IH: "2 powi expUp (x / 2) \<le> x / 2 \<and> x / 2 < 2 powi (expUp (x / 2) + 1)"
      using 1 by simp
    have e: "expUp x = expUp (x / 2) + 1" using True by (subst expUp.simps) simp
    show ?thesis unfolding e using IH by (simp add: power_int_add)
  next
    case False
    then have "expUp x = 0" by (subst expUp.simps) simp
    then show ?thesis using False 1(2) by simp
  qed
qed

lemma expDown_bounds:
  "0 < x \<Longrightarrow> x < 1 \<Longrightarrow> 2 powi expDown x \<le> x \<and> x < 2 powi (expDown x + 1)"
proof (induction x rule: expDown.induct)
  case (1 x)
  have e: "expDown x = expDown (2 * x) - 1" using 1(2,3) by (subst expDown.simps) simp
  show ?case
  proof (cases "2 * x < 1")
    case True
    then have IH: "2 powi expDown (2 * x) \<le> 2 * x \<and> 2 * x < 2 powi (expDown (2 * x) + 1)"
      using 1 by simp
    show ?thesis unfolding e using IH by (simp add: power_int_add power_int_diff)
  next
    case False
    then have "expDown (2 * x) = 0" by (subst expDown.simps) simp
    then show ?thesis unfolding e using False 1(3) by (simp add: power_int_minus)
  qed
qed

text \<open>\<open>expo x\<close> is the binary exponent of a positive \<open>x\<close>.\<close>

lemma expo_bounds: "0 < x \<Longrightarrow> 2 powi expo x \<le> x \<and> x < 2 powi (expo x + 1)"
  using expUp_bounds [of x] expDown_bounds [of x] by (cases "1 \<le> x") (simp_all add: expo_def)

lemma expo_mono:
  assumes "0 < x" and "x \<le> y"
  shows "expo x \<le> expo y"
proof -
  have "2 powi expo x \<le> x" using expo_bounds [OF assms(1)] by simp
  also have "x \<le> y" by fact
  also have "y < 2 powi (expo y + 1)" using expo_bounds [of y] assms by simp
  finally have "(2::real) powi expo x < 2 powi (expo y + 1)" .
  then have "expo x < expo y + 1"
    by (metis linorder_not_less one_le_numeral power_int_increasing)
  then show ?thesis by simp
qed

lemma roundHalfEven_cases: "roundHalfEven m = \<lfloor>m\<rfloor> \<or> roundHalfEven m = \<lfloor>m\<rfloor> + 1"
  by (simp add: roundHalfEven_def Let_def)

lemma roundHalfEven_of_int [simp]: "roundHalfEven (of_int n) = n"
  by (simp add: roundHalfEven_def Let_def)

lemma roundHalfEven_mono:
  assumes "a \<le> b"
  shows "roundHalfEven a \<le> roundHalfEven b"
proof (cases "\<lfloor>a\<rfloor> = \<lfloor>b\<rfloor>")
  case True
  then show ?thesis using assms by (auto simp: roundHalfEven_def Let_def)
next
  case False
  then have "\<lfloor>a\<rfloor> < \<lfloor>b\<rfloor>" using assms floor_mono [of a b] by simp
  then show ?thesis using roundHalfEven_cases [of a] roundHalfEven_cases [of b] by linarith
qed

lemma float64_zero [simp]: "float64 0 = 0"
  by (simp add: float64_def)

lemma float64_minus: "float64 (- x) = - float64 x"
  by (simp add: float64_def Let_def sgn_minus)

lemma float64_pos_eq:
  "0 < x \<Longrightarrow> float64 x = of_int (roundHalfEven (x / 2 powi (expo x - 52))) * 2 powi (expo x - 52)"
  by (simp add: float64_def Let_def)

text \<open>Rounding keeps a positive number between the two powers of two around it.\<close>

lemma float64_range:
  assumes "0 < x"
  shows "2 powi expo x \<le> float64 x \<and> float64 x \<le> 2 powi (expo x + 1)"
proof -
  define u :: real where "u = 2 powi (expo x - 52)"
  have u0: "0 < u" by (simp add: u_def)
  have lo: "2 powi expo x = 2 ^ 52 * u" and hi: "2 powi (expo x + 1) = 2 ^ 53 * u"
    by (simp_all add: u_def power_int_add power_int_diff)
  have b: "2 ^ 52 * u \<le> x" "x < 2 ^ 53 * u" using expo_bounds [OF assms] lo hi by simp_all
  have m1: "of_int (2 ^ 52) \<le> x / u" using b(1) u0 by (simp add: pos_le_divide_eq)
  have m2: "x / u \<le> of_int (2 ^ 53)" using b(2) u0 by (simp add: pos_divide_le_eq)
  have "roundHalfEven (of_int (2 ^ 52)) \<le> roundHalfEven (x / u)" using m1 by (rule roundHalfEven_mono)
  then have r1: "2 ^ 52 \<le> roundHalfEven (x / u)" by (simp only: roundHalfEven_of_int)
  have "roundHalfEven (x / u) \<le> roundHalfEven (of_int (2 ^ 53))" using m2 by (rule roundHalfEven_mono)
  then have r2: "roundHalfEven (x / u) \<le> 2 ^ 53" by (simp only: roundHalfEven_of_int)
  have f: "float64 x = of_int (roundHalfEven (x / u)) * u"
    using float64_pos_eq [OF assms] by (simp add: u_def)
  have "(2::real) ^ 52 \<le> of_int (roundHalfEven (x / u))" using r1
    by (metis of_int_le_iff of_int_numeral of_int_power)
  then have a1: "2 ^ 52 * u \<le> float64 x" unfolding f using u0 by simp
  have "of_int (roundHalfEven (x / u)) \<le> (2::real) ^ 53" using r2
    by (metis of_int_le_iff of_int_numeral of_int_power)
  then have a2: "float64 x \<le> 2 ^ 53 * u" unfolding f using u0 by simp
  show ?thesis using a1 a2 lo hi by simp
qed

lemma float64_pos: "0 < x \<Longrightarrow> 0 < float64 x"
proof -
  assume x: "0 < x"
  have "(0::real) < 2 powi expo x" by simp
  then show ?thesis using float64_range [OF x] by linarith
qed

lemma float64_neg: "x < 0 \<Longrightarrow> float64 x < 0"
  using float64_pos [of "- x"] by (simp add: float64_minus)

lemma float64_nonneg: "0 \<le> x \<Longrightarrow> 0 \<le> float64 x"
  using float64_pos [of x] by (cases "x = 0") simp_all

lemma float64_nonpos: "x \<le> 0 \<Longrightarrow> float64 x \<le> 0"
  using float64_neg [of x] by (cases "x = 0") simp_all

text \<open>Rounding is monotone.\<close>

lemma float64_mono:
  assumes "0 \<le> x" and "x \<le> y"
  shows "float64 x \<le> float64 y"
proof (cases "x = 0")
  case True
  then show ?thesis using assms float64_nonneg [of y] by simp
next
  case False
  then have x0: "0 < x" and y0: "0 < y" using assms by simp_all
  have le: "expo x \<le> expo y" using expo_mono [OF x0 assms(2)] .
  show ?thesis
  proof (cases "expo x = expo y")
    case True
    define u :: real where "u = 2 powi (expo x - 52)"
    have u0: "0 < u" by (simp add: u_def)
    have "x / u \<le> y / u" using assms(2) u0 by (simp add: divide_right_mono)
    then have "roundHalfEven (x / u) \<le> roundHalfEven (y / u)" by (rule roundHalfEven_mono)
    then have "of_int (roundHalfEven (x / u)) * u \<le> of_int (roundHalfEven (y / u)) * u"
      using u0 by simp
    then show ?thesis
      using float64_pos_eq [OF x0] float64_pos_eq [OF y0] True by (simp add: u_def)
  next
    case False
    then have "expo x + 1 \<le> expo y" using le by simp
    then have "(2::real) powi (expo x + 1) \<le> 2 powi expo y"
      by (simp add: power_int_increasing)
    then show ?thesis using float64_range [OF x0] float64_range [OF y0] by linarith
  qed
qed

text \<open>The numbers the bounds below go through are \<^verbatim>\<open>float64\<close> values.\<close>

lemma float64_exact_examples:
  "float64 1 = 1"
  "float64 976562 = 976562"
  "float64 999999999 = 999999999"
  "float64 9223372036 = 9223372036"
  "float64 9223372037 = 9223372037"
  "float64 9223372036854775808 = 9223372036854775808"
  by (simp_all add: float64_simps)

lemma float64_tenth: "float64 (1 / 10) = 3602879701896397 / 36028797018963968"
  by (simp add: float64_simps)

subsection \<open>\<^verbatim>\<open>Duration.Seconds\<close>\<close>

lemma quo_rem_nonneg:
  assumes "0 \<le> d"
  shows "quo d Second = d div Second" and "rem d Second = d mod Second"
proof -
  show q: "quo d Second = d div Second"
    using assms by (cases "d = 0") (simp_all add: quo_def Second_def)
  show "rem d Second = d mod Second"
    unfolding rem_def q by (simp add: minus_div_mult_eq_mod)
qed

lemma quo_rem_neg:
  assumes "d < 0"
  shows "quo d Second = - ((- d) div Second)" and "rem d Second = - ((- d) mod Second)"
proof -
  show q: "quo d Second = - ((- d) div Second)"
    using assms by (simp add: quo_def Second_def)
  have "(- d) mod Second = - d - (- d) div Second * Second"
    by (simp add: minus_div_mult_eq_mod)
  then show "rem d Second = - ((- d) mod Second)"
    unfolding rem_def q by simp
qed

lemma Seconds_pos:
  assumes "0 < d"
  shows "0 < Seconds d"
proof -
  have q: "quo d Second = d div Second" and r: "rem d Second = d mod Second"
    using quo_rem_nonneg [of d] assms by simp_all
  have q0: "0 \<le> d div Second" and r0: "0 \<le> d mod Second"
    using assms by (simp_all add: Second_def pos_imp_zdiv_nonneg_iff)
  have some: "0 < d div Second \<or> 0 < d mod Second"
  proof (rule ccontr)
    assume "\<not> ?thesis"
    then have "d div Second = 0" "d mod Second = 0" using q0 r0 by simp_all
    then have "d = 0" by (metis mult_zero_left add_0 div_mult_mod_eq)
    then show False using assms by simp
  qed
  define a where "a = float64 (real_of_int (d div Second))"
  define b where "b = float64 (float64 (real_of_int (d mod Second)) / 1000000000)"
  have a0: "0 \<le> a" using q0 by (simp add: a_def float64_nonneg)
  have b0: "0 \<le> b" using r0 by (simp add: b_def float64_nonneg)
  have "0 < a \<or> 0 < b"
  proof (cases "0 < d div Second")
    case True
    then show ?thesis by (simp add: a_def float64_pos)
  next
    case False
    then have "0 < d mod Second" using some by simp
    then have "0 < float64 (real_of_int (d mod Second))" by (simp add: float64_pos)
    then show ?thesis by (simp add: b_def float64_pos)
  qed
  then have "0 < a + b" using a0 b0 by linarith
  then have "0 < float64 (a + b)" by (rule float64_pos)
  then show ?thesis
    by (simp add: Seconds_def Let_def q r fadd_def fdiv_def a_def b_def)
qed

lemma Seconds_nonpos:
  assumes "d \<le> 0"
  shows "Seconds d \<le> 0"
proof (cases "d = 0")
  case True
  then show ?thesis by (simp add: Seconds_def Let_def quo_def rem_def fadd_def fdiv_def)
next
  case False
  then have neg: "d < 0" using assms by simp
  have q: "quo d Second = - ((- d) div Second)" and r: "rem d Second = - ((- d) mod Second)"
    using quo_rem_neg [OF neg] by simp_all
  have q0: "0 \<le> (- d) div Second" and r0: "0 \<le> (- d) mod Second"
    using neg by (simp_all add: Second_def pos_imp_zdiv_nonneg_iff)
  define a where "a = float64 (real_of_int (- ((- d) div Second)))"
  define b where "b = float64 (float64 (real_of_int (- ((- d) mod Second))) / 1000000000)"
  have a0: "a \<le> 0" unfolding a_def using q0 by (intro float64_nonpos) simp
  have "float64 (real_of_int (- ((- d) mod Second))) \<le> 0"
    using r0 by (intro float64_nonpos) simp
  then have b0: "b \<le> 0" unfolding b_def
    by (intro float64_nonpos) (simp add: divide_nonpos_pos)
  have "float64 (a + b) \<le> 0" using a0 b0 by (intro float64_nonpos) simp
  then show ?thesis
    by (simp add: Seconds_def Let_def q r fadd_def fdiv_def a_def b_def)
qed

lemma Seconds_nonpos_iff: "Seconds d \<le> 0 \<longleftrightarrow> d \<le> 0"
  using Seconds_pos [of d] Seconds_nonpos [of d] by (cases "d \<le> 0") simp_all

text \<open>The longest duration is a little more than 9223372036 seconds.\<close>

lemma Seconds_le:
  assumes "d \<le> maxDuration"
  shows "Seconds d \<le> 9223372037"
proof (cases "d \<le> 0")
  case True
  then show ?thesis using Seconds_nonpos [of d] by simp
next
  case False
  then have pos: "0 \<le> d" by simp
  have q: "quo d Second = d div Second" and r: "rem d Second = d mod Second"
    using quo_rem_nonneg [OF pos] by simp_all
  have q0: "0 \<le> d div Second" and r0: "0 \<le> d mod Second"
    using pos by (simp_all add: Second_def pos_imp_zdiv_nonneg_iff)
  have q1: "d div Second \<le> 9223372036"
    using assms zdiv_mono1 [of d maxDuration Second] by (simp add: maxDuration_def Second_def)
  have r1: "d mod Second \<le> 999999999"
    using pos_mod_bound [of Second d] by (simp add: Second_def)
  define a where "a = float64 (real_of_int (d div Second))"
  define n where "n = float64 (real_of_int (d mod Second))"
  define b where "b = float64 (n / 1000000000)"
  have "a \<le> float64 9223372036"
    unfolding a_def using q0 q1 by (intro float64_mono) simp_all
  then have a1: "a \<le> 9223372036" by (simp only: float64_exact_examples)
  have a0: "0 \<le> a" unfolding a_def using q0 by (intro float64_nonneg) simp
  have "n \<le> float64 999999999"
    unfolding n_def using r0 r1 by (intro float64_mono) simp_all
  then have n1: "n \<le> 999999999" by (simp only: float64_exact_examples)
  have n0: "0 \<le> n" unfolding n_def using r0 by (intro float64_nonneg) simp
  have "b \<le> float64 1"
    unfolding b_def using n0 n1 by (intro float64_mono) simp_all
  then have b1: "b \<le> 1" by (simp only: float64_exact_examples)
  have b0: "0 \<le> b" unfolding b_def using n0 by (intro float64_nonneg) simp
  have "float64 (a + b) \<le> float64 9223372037"
    using a0 a1 b0 b1 by (intro float64_mono) simp_all
  then have "float64 (a + b) \<le> 9223372037" by (simp only: float64_exact_examples)
  then show ?thesis
    by (simp add: Seconds_def Let_def q r fadd_def fdiv_def a_def b_def n_def)
qed

text \<open>Durations of the examples.\<close>

lemma Seconds_examples:
  "Seconds 0 = 0"
  "Seconds 1000000000 = 1"
  "Seconds 2000000000 = 2"
  "Seconds 29296874999999999 = 29296875"
  by (simp_all add: Seconds_def Let_def quo_def rem_def Second_def float64_simps)


section \<open>The session: refresh interval and ticker\<close>

lemma toggleLogging_frame:
  "refreshRate (app (toggleLogging opened w)) = refreshRate (app w)
   \<and> tickers (toggleLogging opened w) = tickers w"
  by (simp add: toggleLogging_def displayInterface_def Let_def split: sum.splits)

lemma retick_sessionInv:
  assumes "sessionInv w" and "Second \<le> d" and "d \<le> 10 * Second" and "d mod Second = 0"
  shows "\<exists>w'. retick d w = Inr w' \<and> sessionInv w'"
proof -
  have ne: "tickers w \<noteq> []" and t0: "period (tickers w ! 0) = 3 * Second"
    using assms(1) by (simp_all add: sessionInv_def)
  have pos: "0 < d" using assms(2) by (simp add: Second_def)
  have len: "0 < length (tickers w)" using ne by simp
  have "retick d w =
          Inr (Stop (length (tickers w))
                 (w\<lparr>app := (app w)\<lparr>refreshRate := d\<rparr>,
                    tickers := tickers w @ [\<lparr>period = d, stopped = False\<rparr>]\<rparr>))"
    using pos by (simp add: retick_def NewTicker_def)
  moreover have "sessionInv (Stop (length (tickers w))
                 (w\<lparr>app := (app w)\<lparr>refreshRate := d\<rparr>,
                    tickers := tickers w @ [\<lparr>period = d, stopped = False\<rparr>]\<rparr>))"
    using assms(2-4) ne t0 len by (simp add: sessionInv_def Stop_def nth_append)
  ultimately show ?thesis by simp
qed

lemma handleKeyPress_sessionInv:
  assumes "sessionInv w"
  shows "\<exists>q w'. handleKeyPress opened k w = Inr (q, w') \<and> sessionInv w'"
proof -
  let ?r = "refreshRate (app w)"
  from assms have r: "Second \<le> ?r" "?r \<le> 10 * Second" "?r mod Second = 0"
    by (simp_all add: sessionInv_def)
  have frame: "sessionInv w'"
    if "refreshRate (app w') = ?r" and "tickers w' = tickers w" for w'
    using assms that by (simp add: sessionInv_def)
  consider (plus) "k = key CHR ''+''" "Second < ?r"
    | (minus) "k = key CHR ''-''" "?r < 10 * Second"
    | (other) "\<not> (k = key CHR ''+'' \<and> Second < ?r)" "\<not> (k = key CHR ''-'' \<and> ?r < 10 * Second)"
    by blast
  then show ?thesis
  proof cases
    case plus
    have "Second \<le> ?r - Second \<and> ?r - Second \<le> 10 * Second \<and> (?r - Second) mod Second = 0"
      using r plus(2) by (auto simp: Second_def)
    then obtain w' where "retick (?r - Second) w = Inr w'" "sessionInv w'"
      using retick_sessionInv [OF assms, of "?r - Second"] by auto
    then show ?thesis using plus by (auto simp: handleKeyPress_def)
  next
    case minus
    have "Second \<le> ?r + Second \<and> ?r + Second \<le> 10 * Second \<and> (?r + Second) mod Second = 0"
      using r minus(2) by (auto simp: Second_def)
    then obtain w' where "retick (?r + Second) w = Inr w'" "sessionInv w'"
      using retick_sessionInv [OF assms, of "?r + Second"] by auto
    then show ?thesis using minus by (auto simp: handleKeyPress_def)
  next
    case other
    have "\<exists>q w'. handleKeyPress opened k w = Inr (q, w')
            \<and> refreshRate (app w') = ?r \<and> tickers w' = tickers w"
      using other
      by (auto simp: handleKeyPress_def setView_def displayInterface_def exportStats_def
          toggleLogging_frame)
    then show ?thesis using frame by blast
  qed
qed

lemma cleanup_sessionInv: "sessionInv w \<Longrightarrow> sessionInv (Stop 0 (cleanup w))"
  by (auto simp: cleanup_def sessionInv_def Stop_def)

lemma mainStep_sessionInv:
  assumes "sessionInv w"
  shows "\<exists>q w'. mainStep ev w = Inr (q, w') \<and> sessionInv w'"
proof (cases ev)
  case Signal
  have "mainStep ev w = Inr (True, Stop 0 (cleanup w))" using Signal by (simp add: mainStep_def)
  then show ?thesis using assms cleanup_sessionInv by blast
next
  case (KeyPress k opened)
  obtain q w' where h: "handleKeyPress opened k w = Inr (q, w')" "sessionInv w'"
    using handleKeyPress_sessionInv [OF assms] by blast
  have "mainStep ev w = Inr (q, if q then Stop 0 (cleanup w') else w')"
    using KeyPress h by (simp add: mainStep_def)
  moreover have "sessionInv (if q then Stop 0 (cleanup w') else w')"
    using h by (simp add: cleanup_sessionInv)
  ultimately show ?thesis by blast
next
  case Tick
  have "sessionInv (displayInterface w)"
    using assms by (simp add: displayInterface_def sessionInv_def)
  moreover have "mainStep ev w = Inr (False, displayInterface w) \<or> mainStep ev w = Inr (False, w)"
    using Tick by (simp add: mainStep_def)
  ultimately show ?thesis using assms by blast
qed

lemma mainLoop_sessionInv:
  "sessionInv w \<Longrightarrow> \<exists>q w'. mainLoop evs w = Inr (q, w') \<and> sessionInv w'"
proof (induction evs arbitrary: w)
  case Nil
  then show ?case by auto
next
  case (Cons ev evs)
  obtain q w1 where s: "mainStep ev w = Inr (q, w1)" "sessionInv w1"
    using mainStep_sessionInv [OF Cons.prems] by blast
  show ?case
  proof (cases q)
    case True
    then show ?thesis using s by auto
  next
    case False
    then show ?thesis using s Cons.IH [OF s(2)] by simp
  qed
qed

lemma initialWorld_sessionInv: "sessionInv initialWorld"
  by (simp add: sessionInv_def initialWorld_def initialApp_def Second_def)

text \<open>
  Claim C7. Whatever events arrive after the start (rate keys, other keys, ticks), the loop
  runs without a panic and the refresh interval stays between one and ten seconds. At the
  bounds the rate keys change nothing: \<open>+\<close>, which shortens the interval, leaves an interval
  of one second as it is, and \<open>-\<close>, which lengthens it, leaves an interval of ten seconds as
  it is.
\<close>

theorem refresh_interval_bounded:
  "(\<exists>q w. mainLoop evs initialWorld = Inr (q, w)
       \<and> Second \<le> refreshRate (app w) \<and> refreshRate (app w) \<le> 10 * Second)
   \<and> handleKeyPress opened (key CHR ''+'') (w0\<lparr>app := (app w0)\<lparr>refreshRate := Second\<rparr>\<rparr>)
       = Inr (False, w0\<lparr>app := (app w0)\<lparr>refreshRate := Second\<rparr>\<rparr>)
   \<and> handleKeyPress opened (key CHR ''-'') (w0\<lparr>app := (app w0)\<lparr>refreshRate := 10 * Second\<rparr>\<rparr>)
       = Inr (False, w0\<lparr>app := (app w0)\<lparr>refreshRate := 10 * Second\<rparr>\<rparr>)"
proof (intro conjI)
  show "\<exists>q w. mainLoop evs initialWorld = Inr (q, w)
       \<and> Second \<le> refreshRate (app w) \<and> refreshRate (app w) \<le> 10 * Second"
    using mainLoop_sessionInv [OF initialWorld_sessionInv, of evs]
    by (auto simp: sessionInv_def)
qed (simp_all add: handleKeyPress_def)

text \<open>
  Three presses of \<open>+\<close> from the start bring the interval from three seconds to one; the
  instance of the theorem at the world reached says that a fourth press changes nothing.
\<close>

theorem refresh_interval_bounded_witness:
  "mainLoop [KeyPress (key CHR ''+'') (Inl ProviderError), KeyPress (key CHR ''+'') (Inl ProviderError),
             KeyPress (key CHR ''+'') (Inl ProviderError)] initialWorld
     = Inr (False, \<lparr>app = initialApp\<lparr>refreshRate := Second\<rparr>,
                   tickers = [\<lparr>period = 3 * Second, stopped = False\<rparr>,
                              \<lparr>period = 2 * Second, stopped = True\<rparr>,
                              \<lparr>period = Second, stopped = True\<rparr>],
                   effects = [Display]\<rparr>)
   \<and> handleKeyPress (Inl ProviderError) (key CHR ''+'')
       \<lparr>app = initialApp\<lparr>refreshRate := Second\<rparr>,
        tickers = [\<lparr>period = 3 * Second, stopped = False\<rparr>,
                   \<lparr>period = 2 * Second, stopped = True\<rparr>,
                   \<lparr>period = Second, stopped = True\<rparr>],
        effects = [Display]\<rparr>
     = Inr (False, \<lparr>app = initialApp\<lparr>refreshRate := Second\<rparr>,
                   tickers = [\<lparr>period = 3 * Second, stopped = False\<rparr>,
                              \<lparr>period = 2 * Second, stopped = True\<rparr>,
                              \<lparr>period = Second, stopped = True\<rparr>],
                   effects = [Display]\<rparr>)"
  using refresh_interval_bounded [of "[]" "Inl ProviderError"
      "\<lparr>app = initialApp\<lparr>refreshRate := Second\<rparr>,
        tickers = [\<lparr>period = 3 * Second, stopped = False\<rparr>,
                   \<lparr>period = 2 * Second, stopped = True\<rparr>,
                   \<lparr>period = Second, stopped = True\<rparr>],
        effects = [Display]\<rparr>"]
  by (simp add: mainStep_def handleKeyPress_def retick_def NewTicker_def Stop_def
      initialWorld_def initialApp_def Second_def)

text \<open>
  Claim C2. The claim asks that after a rate key the ticker that produces the ticks runs
  with the new interval. In the program it does not: the ticker created in
  \<^verbatim>\<open>handleKeyPress\<close> is a new local one, stopped when the function returns, and the
  ticker of \<^verbatim>\<open>main\<close> keeps the period of three seconds it was created with, whatever events
  arrive. After one press of \<open>+\<close> the stored interval is two seconds, and the only running
  ticker is the first one, with its period of three.
\<close>

theorem rate_key_leaves_main_ticker_stale:
  "(\<exists>q w. mainLoop evs initialWorld = Inr (q, w) \<and> mainTickerPeriod w = 3 * Second)
   \<and> mainLoop [KeyPress (key CHR ''+'') (Inl ProviderError)] initialWorld
       = Inr (False, \<lparr>app = initialApp\<lparr>refreshRate := 2 * Second\<rparr>,
                     tickers = [\<lparr>period = 3 * Second, stopped = False\<rparr>,
                                \<lparr>period = 2 * Second, stopped = True\<rparr>],
                     effects = [Display]\<rparr>)"
proof (intro conjI)
  show "\<exists>q w. mainLoop evs initialWorld = Inr (q, w) \<and> mainTickerPeriod w = 3 * Second"
    using mainLoop_sessionInv [OF initialWorld_sessionInv, of evs]
    by (auto simp: sessionInv_def mainTickerPeriod_def)
qed (simp add: mainStep_def handleKeyPress_def retick_def NewTicker_def Stop_def
      initialWorld_def initialApp_def Second_def)
section \<open>Process records: the command line\<close>

lemma getProcessInfo_example:
  "getProcessInfo (exampleProcess cmd) = Inr (exampleInfo (commandLineOf ''init'' cmd))"
  by (simp add: getProcessInfo_def exampleProcess_def exampleInfo_def orZero_def)

lemma characterCount_ascii:
  "\<forall>c \<in> set s. (of_char c :: nat) < 128 \<Longrightarrow> characterCount s = length s"
  by (induction s) (simp_all add: characterCount_def continuationByte_def)

lemma firstCharacters_ascii:
  "\<forall>c \<in> set s. (of_char c :: nat) < 128 \<Longrightarrow> firstCharacters n s = take n s"
proof (induction s arbitrary: n)
  case Nil
  then show ?case by simp
next
  case (Cons c cs)
  then show ?case by (cases n) (simp_all add: continuationByte_def)
qed

text \<open>
  Claim C9, as stated, counts characters: a command line of more than 100 characters is
  cut to its first 100 characters. The program tests \<^verbatim>\<open>len(info.CommandLine) > 100\<close> and
  cuts with \<^verbatim>\<open>info.CommandLine[:100]\<close>, which count bytes. A command line of 101 letters
  U+00E9 has 202 bytes: the program keeps 100 bytes, the first 50 characters, where the
  claim asks for the first 100 characters. A command line of 60 such letters, which is not
  longer than 100 characters, is cut to 50 characters as well.
\<close>

theorem command_line_cut_counts_bytes:
  "characterCount (concat (replicate 101 eAcute)) = 101
   \<and> getProcessInfo (exampleProcess (Inr (concat (replicate 101 eAcute))))
       = Inr (exampleInfo (concat (replicate 50 eAcute) @ ''...''))
   \<and> firstCharacters 100 (concat (replicate 101 eAcute)) = concat (replicate 100 eAcute)
   \<and> concat (replicate 50 eAcute) @ ''...''
       \<noteq> firstCharacters 100 (concat (replicate 101 eAcute)) @ ''...''
   \<and> characterCount (concat (replicate 60 eAcute)) = 60
   \<and> getProcessInfo (exampleProcess (Inr (concat (replicate 60 eAcute))))
       = Inr (exampleInfo (concat (replicate 50 eAcute) @ ''...''))"
  by code_simp

text \<open>
  Claim C9, amended. \<^verbatim>\<open>getProcessInfo\<close> always returns a record. In it the command line is
  the process name when the call for the command line fails or returns the empty string;
  a command line of more than 100 bytes is cut to its first 100 bytes followed by three
  dots; any other command line is kept as it is. Lengths are lengths in bytes, as Go's
  \<^verbatim>\<open>len\<close> counts them; for a command line of ASCII characters they are numbers of characters.
\<close>

theorem command_line_fallback_and_truncation:
  "\<exists>info. getProcessInfo proc = Inr info
     \<and> Name info = (case procName proc of Inl e \<Rightarrow> [] | Inr name \<Rightarrow> name)
     \<and> (case procCmdline proc of
           Inl e \<Rightarrow> CommandLine info = Name info
         | Inr cmdline \<Rightarrow>
             if cmdline = [] then CommandLine info = Name info
             else if length cmdline > 100 then CommandLine info = take 100 cmdline @ ''...''
             else CommandLine info = cmdline)"
  by (auto simp: getProcessInfo_def commandLineOf_def orZero_def split: sum.splits)

text \<open>
  The process \<open>init\<close> with an empty command line, with a failing one, with one of 101
  bytes and with one of 100 bytes.
\<close>

theorem command_line_fallback_and_truncation_witness:
  "getProcessInfo (exampleProcess (Inr [])) = Inr (exampleInfo ''init'')
   \<and> getProcessInfo (exampleProcess (Inl ProviderError)) = Inr (exampleInfo ''init'')
   \<and> getProcessInfo (exampleProcess (Inr (replicate 101 CHR ''a'')))
       = Inr (exampleInfo (replicate 100 CHR ''a'' @ ''...''))
   \<and> getProcessInfo (exampleProcess (Inr (replicate 100 CHR ''a'')))
       = Inr (exampleInfo (replicate 100 CHR ''a''))"
  using command_line_fallback_and_truncation [of "exampleProcess (Inr [])"]
    command_line_fallback_and_truncation [of "exampleProcess (Inl ProviderError)"]
    command_line_fallback_and_truncation [of "exampleProcess (Inr (replicate 101 CHR ''a''))"]
    command_line_fallback_and_truncation [of "exampleProcess (Inr (replicate 100 CHR ''a''))"]
  by (simp add: getProcessInfo_example commandLineOf_def exampleInfo_def)

section \<open>Throughput: the stored baseline\<close>

text \<open>Evaluation of the sorting routine on the short lists of the examples.\<close>

lemmas go_sort_simps =
  sort_Slice_def pdqsort_func.simps insertionSort_func_def insertionOuter.simps
  insertionInner.simps Less_def Swap_def choosePivot_func_def median_func_def order2_func_def
  partialInsertionSort_func_def partialInsertionSort_loop.simps
  unorderedFrom.simps partition_func_def partitionLoop.simps scanUp.simps scanDown.simps
  quo_def Let_def bits_Len.simps

lemma poll_eth0_before:
  "GetNetworkStats sort_Slice (pollOf [row ''eth0'' 1000 2000] (5 * Second))
     = Inr (statsOf [mkInterface (row ''eth0'' 1000 2000) (5 * Second)] 1000 2000 1 (5 * Second))"
  by (simp add: GetNetworkStats_def pollOf_def statsOf_def row_def mkInterface_def
      isLoopbackInterface_def getConnectionCount_def go_sort_simps)

lemma poll_eth0_after:
  "GetNetworkStats sort_Slice (pollOf [row ''eth0'' 2000 2048] (7 * Second))
     = Inr (statsOf [mkInterface (row ''eth0'' 2000 2048) (7 * Second)] 2000 2048 1 (7 * Second))"
  by (simp add: GetNetworkStats_def pollOf_def statsOf_def row_def mkInterface_def
      isLoopbackInterface_def getConnectionCount_def go_sort_simps)

lemma poll_wlan0:
  "GetNetworkStats sort_Slice (pollOf [row ''wlan0'' 500 700] (7 * Second))
     = Inr (statsOf [mkInterface (row ''wlan0'' 500 700) (7 * Second)] 500 700 1 (7 * Second))"
  by (simp add: GetNetworkStats_def pollOf_def statsOf_def row_def mkInterface_def
      isLoopbackInterface_def getConnectionCount_def go_sort_simps)

lemma baseline_simps:
  "previousNetStats baseline
     = Some [''eth0'' \<mapsto> mkInterface (row ''eth0'' 1000 2000) (5 * Second)]"
  "lastNetworkRead baseline = 5 * Second"
  by (simp_all add: baseline_def)

lemma storeInterfaces_other:
  "n \<notin> IfaceName ` set ifaces \<Longrightarrow> storeInterfaces prev ifaces n = prev n"
  by (induction ifaces arbitrary: prev) auto

lemma storeInterfaces_stored:
  "distinct (map IfaceName ifaces) \<Longrightarrow> i \<in> set ifaces
   \<Longrightarrow> storeInterfaces prev ifaces (IfaceName i) = Some i"
proof (induction ifaces arbitrary: prev)
  case Nil
  then show ?case by simp
next
  case (Cons x xs)
  show ?case
  proof (cases "i = x")
    case True
    then have "IfaceName i \<notin> IfaceName ` set xs" using Cons.prems by auto
    then show ?thesis using True by (simp add: storeInterfaces_other)
  next
    case False
    then show ?thesis using Cons by auto
  qed
qed

lemma storeInterfaces_dom:
  "dom (storeInterfaces prev ifaces) = dom prev \<union> IfaceName ` set ifaces"
  by (induction ifaces arbitrary: prev) auto

lemma Seconds_Sub_nonpos: "Seconds (Sub now lst) \<le> 0 \<longleftrightarrow> now \<le> lst"
  by (simp add: Seconds_nonpos_iff Sub_def maxDuration_def minDuration_def)

lemma Seconds_Sub_example: "Seconds (Sub (7 * Second) (5 * Second)) = 2"
  by (simp add: Sub_def maxDuration_def minDuration_def Second_def Seconds_examples)

text \<open>
  Claim C3. When the store has been made and the elapsed time since the last read is not
  positive, \<^verbatim>\<open>GetNetworkSpeeds\<close> returns no rate and leaves both package variables as they
  were; a later call therefore computes exactly what it would have computed without the
  call in between.
\<close>

theorem nonpositive_elapsed_keeps_baseline:
  assumes "previousNetStats st = Some prev"
      and "Seconds (Sub now (lastNetworkRead st)) \<le> 0"
  shows "GetNetworkSpeeds srt (Inr current) now st = (Inr [], st)
         \<and> GetNetworkSpeeds srt polled' now' (snd (GetNetworkSpeeds srt (Inr current) now st))
             = GetNetworkSpeeds srt polled' now' st"
  using assms by (simp add: GetNetworkSpeeds_def)

text \<open>
  With the baseline of second 5 (\<open>eth0\<close>: 1000 sent, 2000 received), a call at second 5 that
  sees 2000 and 2048 changes nothing, and the call at second 7 after it gives the rates
  against the baseline of second 5: 1000 bytes in 2 s upwards, 48 bytes in 2 s downwards.
\<close>

theorem nonpositive_elapsed_keeps_baseline_witness:
  "GetNetworkSpeeds sort_Slice
     (GetNetworkStats sort_Slice (pollOf [row ''eth0'' 2000 2048] (7 * Second))) (5 * Second) baseline
     = (Inr [], baseline)
   \<and> fst (GetNetworkSpeeds sort_Slice
       (GetNetworkStats sort_Slice (pollOf [row ''eth0'' 2000 2048] (7 * Second))) (7 * Second)
       (snd (GetNetworkSpeeds sort_Slice
          (GetNetworkStats sort_Slice (pollOf [row ''eth0'' 2000 2048] (7 * Second))) (5 * Second)
          baseline)))
     = Inr [\<lparr>Interface = ''eth0'', UploadKBps = 125 / 256, DownloadKBps = 3 / 128,
             Timestamp = 7 * Second\<rparr>]"
proof -
  have h: "Seconds (Sub (5 * Second) (lastNetworkRead baseline)) \<le> 0"
    by (simp add: baseline_simps Seconds_Sub_nonpos)
  have e: "fst (GetNetworkSpeeds sort_Slice
       (GetNetworkStats sort_Slice (pollOf [row ''eth0'' 2000 2048] (7 * Second))) (7 * Second)
       baseline)
     = Inr [\<lparr>Interface = ''eth0'', UploadKBps = 125 / 256, DownloadKBps = 3 / 128,
             Timestamp = 7 * Second\<rparr>]"
    unfolding poll_eth0_after
    by (simp add: GetNetworkSpeeds_def statsOf_def baseline_simps Seconds_Sub_example
        speedOf_def mkInterface_def row_def speedLess_def go_sort_simps float64_simps)
  show ?thesis
    using nonpositive_elapsed_keeps_baseline [OF baseline_simps(1) h, of sort_Slice
        "statsOf [mkInterface (row ''eth0'' 2000 2048) (7 * Second)] 2000 2048 1 (7 * Second)"
        "GetNetworkStats sort_Slice (pollOf [row ''eth0'' 2000 2048] (7 * Second))" "7 * Second"]
      e
    unfolding poll_eth0_after by simp
qed

text \<open>
  Claim C4. The first call ever finds the \<^verbatim>\<open>nil\<close> map: it returns no rate, records the
  call time, and makes a store whose keys are the names of the polled interfaces, each
  mapped to its polled record. (The names of the interfaces of one poll are distinct.)
\<close>

theorem first_call_seeds_baseline:
  assumes "previousNetStats st = None"
      and "distinct (map IfaceName (Interfaces current))"
  shows "fst (GetNetworkSpeeds srt (Inr current) now st) = Inr []
         \<and> lastNetworkRead (snd (GetNetworkSpeeds srt (Inr current) now st)) = now
         \<and> (\<exists>m. previousNetStats (snd (GetNetworkSpeeds srt (Inr current) now st)) = Some m
                \<and> dom m = IfaceName ` set (Interfaces current)
                \<and> (\<forall>i \<in> set (Interfaces current). m (IfaceName i) = Some i))"
  using assms
  by (simp add: GetNetworkSpeeds_def storeInterfaces_dom storeInterfaces_stored)

text \<open>The first poll, at second 5, of an \<open>eth0\<close> with 1000 bytes sent and 2000 received.\<close>

theorem first_call_seeds_baseline_witness:
  "GetNetworkSpeeds sort_Slice
     (GetNetworkStats sort_Slice (pollOf [row ''eth0'' 1000 2000] (5 * Second))) (5 * Second)
     \<lparr>previousNetStats = None, lastNetworkRead = 0\<rparr>
   = (Inr [], baseline)"
  using first_call_seeds_baseline
    [of "\<lparr>previousNetStats = None, lastNetworkRead = 0\<rparr>"
        "statsOf [mkInterface (row ''eth0'' 1000 2000) (5 * Second)] 1000 2000 1 (5 * Second)"
        sort_Slice "5 * Second"]
  unfolding poll_eth0_before
  by (simp add: GetNetworkSpeeds_def statsOf_def baseline_def mkInterface_def row_def)

text \<open>
  Claim C5, as stated, asks that after a call with positive elapsed time the store holds
  the interfaces of the current poll and nothing else. The program only assigns
  \<^verbatim>\<open>previousNetStats[iface.Name] = iface\<close> for the current interfaces and deletes nothing:
  with \<open>eth0\<close> in the store and a poll that sees only \<open>wlan0\<close>, the store afterwards holds
  both.
\<close>

theorem store_keeps_absent_interface:
  "map_option (\<lambda>m. (m ''eth0'', m ''wlan0''))
     (previousNetStats (snd (GetNetworkSpeeds sort_Slice
        (GetNetworkStats sort_Slice (pollOf [row ''wlan0'' 500 700] (7 * Second))) (7 * Second)
        baseline)))
   = Some (Some (mkInterface (row ''eth0'' 1000 2000) (5 * Second)),
           Some (mkInterface (row ''wlan0'' 500 700) (7 * Second)))"
  unfolding poll_wlan0
  by (simp add: GetNetworkSpeeds_def statsOf_def baseline_simps Seconds_Sub_example
      mkInterface_def row_def)

text \<open>
  Claim C5, amended. After a call with a made store and positive elapsed time, the
  timestamp is the call time, every interface of the current poll is stored with its new
  record (whether or not its rate was reported), and the entry of every other name is
  what it was before the call.
\<close>

theorem store_overwritten_entries_kept:
  assumes "previousNetStats st = Some prev"
      and "Seconds (Sub now (lastNetworkRead st)) > 0"
      and "distinct (map IfaceName (Interfaces current))"
  shows "lastNetworkRead (snd (GetNetworkSpeeds srt (Inr current) now st)) = now
         \<and> (\<exists>m. previousNetStats (snd (GetNetworkSpeeds srt (Inr current) now st)) = Some m
                \<and> (\<forall>i \<in> set (Interfaces current). m (IfaceName i) = Some i)
                \<and> (\<forall>n. n \<notin> IfaceName ` set (Interfaces current) \<longrightarrow> m n = prev n))"
  using assms
  by (simp add: GetNetworkSpeeds_def Let_def storeInterfaces_other storeInterfaces_stored)

text \<open>
  The poll of second 7 that sees \<open>eth0\<close> with 2000 and 2048 bytes: the download rate of
  \<open>eth0\<close> is below the threshold, and its new record is stored all the same.
\<close>

theorem store_overwritten_entries_kept_witness:
  "snd (GetNetworkSpeeds sort_Slice
     (GetNetworkStats sort_Slice (pollOf [row ''eth0'' 2000 2048] (7 * Second))) (7 * Second) baseline)
   = \<lparr>previousNetStats = Some [''eth0'' \<mapsto> mkInterface (row ''eth0'' 2000 2048) (7 * Second)],
      lastNetworkRead = 7 * Second\<rparr>"
proof -
  have h: "Seconds (Sub (7 * Second) (lastNetworkRead baseline)) > 0"
    by (simp add: baseline_simps Seconds_Sub_example)
  have d: "distinct (map IfaceName (Interfaces
             (statsOf [mkInterface (row ''eth0'' 2000 2048) (7 * Second)] 2000 2048 1 (7 * Second))))"
    by (simp add: statsOf_def)
  show ?thesis
    using store_overwritten_entries_kept [OF baseline_simps(1) h d, of sort_Slice]
    unfolding poll_eth0_after
    by (simp add: GetNetworkSpeeds_def statsOf_def baseline_simps Seconds_Sub_example
        mkInterface_def row_def)
qed

section \<open>Throughput: the reported rate points\<close>

lemma computeSpeeds_set:
  "set (computeSpeeds prev dt now ifs acc) =
     set acc \<union> {speedOf c p dt now | c p. c \<in> set ifs \<and> prev (IfaceName c) = Some p
                   \<and> (UploadKBps (speedOf c p dt now) > float64 (1 / 10) \<or> DownloadKBps (speedOf c p dt now) > float64 (1 / 10))}"
proof (induction ifs arbitrary: acc)
  case Nil
  then show ?case by simp
next
  case (Cons x xs)
  show ?case
  proof (cases "prev (IfaceName x)")
    case None
    then show ?thesis using Cons.IH [of acc] by auto
  next
    case (Some q)
    show ?thesis
    proof (cases "UploadKBps (speedOf x q dt now) > float64 (1 / 10) \<or> DownloadKBps (speedOf x q dt now) > float64 (1 / 10)")
      case True
      then show ?thesis using Some Cons.IH [of "acc @ [speedOf x q dt now]"]
        by (auto simp: Let_def)
    next
      case False
      then show ?thesis using Some Cons.IH [of acc]
        by (auto simp: Let_def)
    qed
  qed
qed

lemma speedOf_Interface [simp]: "Interface (speedOf c p dt now) = IfaceName c"
  by (simp add: speedOf_def Let_def)

text \<open>
  What a call with a made store and positive elapsed time returns, when the sorting
  routine rearranges the list it is given: the rate points that pass the filter.
\<close>

lemma GetNetworkSpeeds_output:
  assumes "previousNetStats st = Some prev"
      and "Seconds (Sub now (lastNetworkRead st)) > 0"
      and "mset (srt speedLess
                   (computeSpeeds prev (Seconds (Sub now (lastNetworkRead st))) now
                      (Interfaces current) []))
           = mset (computeSpeeds prev (Seconds (Sub now (lastNetworkRead st))) now
                      (Interfaces current) [])"
  shows "\<exists>out. fst (GetNetworkSpeeds srt (Inr current) now st) = Inr out
           \<and> set out =
               {speedOf c p (Seconds (Sub now (lastNetworkRead st))) now | c p.
                  c \<in> set (Interfaces current) \<and> prev (IfaceName c) = Some p
                  \<and> (UploadKBps (speedOf c p (Seconds (Sub now (lastNetworkRead st))) now) > float64 (1 / 10)
                     \<or> DownloadKBps (speedOf c p (Seconds (Sub now (lastNetworkRead st))) now) > float64 (1 / 10))}"
proof -
  define dt where "dt = Seconds (Sub now (lastNetworkRead st))"
  define raw where "raw = computeSpeeds prev dt now (Interfaces current) []"
  have res: "fst (GetNetworkSpeeds srt (Inr current) now st) = Inr (srt speedLess raw)"
    using assms(1,2) by (simp add: GetNetworkSpeeds_def Let_def raw_def dt_def)
  have "mset (srt speedLess raw) = mset raw" using assms(3) by (simp add: raw_def dt_def)
  then have "set (srt speedLess raw) = set raw" by (rule mset_eq_setD)
  then show ?thesis
    using res unfolding raw_def dt_def by (simp add: computeSpeeds_set)
qed

text \<open>
  Claim C8, as stated, says that a rate point is reported exactly when the upload or the
  download rate exceeds 0.1 KB/s. The program compares the rate it has computed in
  \<^verbatim>\<open>float64\<close> with the \<^verbatim>\<open>float64\<close> constant nearest to 0.1, which is a little above one tenth.
  With \<open>eth0\<close> stored at time 0 with no traffic and polled 29296874999999999 ns later with
  3000000000 bytes sent, the elapsed time is rounded to 29296875 s and the computed upload
  rate is that constant: the rate exceeds one tenth, both as the exact quotient and as the
  computed number, and no rate point is reported.
\<close>

theorem rate_at_threshold_not_reported:
  "fst (GetNetworkSpeeds sort_Slice
     (GetNetworkStats sort_Slice (pollOf [row ''eth0'' 3000000000 0] 29296874999999999))
     29296874999999999 (baselineOf [row ''eth0'' 0 0] 0))
   = Inr []
   \<and> Seconds (Sub 29296874999999999 0) = 29296875
   \<and> UploadKBps (speedOf (mkInterface (row ''eth0'' 3000000000 0) 29296874999999999)
        (mkInterface (row ''eth0'' 0 0) 0) (Seconds (Sub 29296874999999999 0)) 29296874999999999)
     = float64 (1 / 10)
   \<and> (1::real) / 10 < float64 (1 / 10)
   \<and> (1::real) / 10 < 3000000000 / (29296874999999999 / 1000000000) / 1024"
proof -
  have p: "GetNetworkStats sort_Slice (pollOf [row ''eth0'' 3000000000 0] 29296874999999999)
     = Inr (statsOf [mkInterface (row ''eth0'' 3000000000 0) 29296874999999999] 3000000000 0 1
         29296874999999999)"
    by (simp add: GetNetworkStats_def pollOf_def statsOf_def row_def mkInterface_def
      isLoopbackInterface_def getConnectionCount_def go_sort_simps)
  have d: "Seconds (Sub 29296874999999999 0) = 29296875"
    by (simp add: Sub_def maxDuration_def minDuration_def Seconds_examples)
  have u: "UploadKBps (speedOf (mkInterface (row ''eth0'' 3000000000 0) 29296874999999999)
        (mkInterface (row ''eth0'' 0 0) 0) 29296875 29296874999999999)
     = 3602879701896397 / 36028797018963968"
    by (simp add: speedOf_def mkInterface_def row_def float64_simps)
  have o: "fst (GetNetworkSpeeds sort_Slice
     (Inr (statsOf [mkInterface (row ''eth0'' 3000000000 0) 29296874999999999] 3000000000 0 1
         29296874999999999))
     29296874999999999 (baselineOf [row ''eth0'' 0 0] 0))
   = Inr []"
    by (simp add: GetNetworkSpeeds_def baselineOf_def statsOf_def d speedOf_def mkInterface_def
        row_def float64_simps go_sort_simps)
  show ?thesis
    unfolding p d u float64_tenth using o by simp
qed

text \<open>
  Claim C8, amended. For a call with a made store and positive elapsed time, and an
  interface that is in the current poll and in the store: a rate point of that interface
  is in the output exactly when its upload rate or its download rate, as computed in
  \<^verbatim>\<open>float64\<close> (the counter difference converted, divided by the elapsed seconds, divided by
  1024), is greater than the \<^verbatim>\<open>float64\<close> constant \<^verbatim>\<open>0.1\<close>; and a rate point of that interface in
  the output is the whole computed point, with both directions. (The sorting routine is
  assumed to rearrange the list of rate points, and the names of one poll are distinct.)
\<close>

theorem rate_point_gate:
  assumes prev: "previousNetStats st = Some prev"
      and dt: "Seconds (Sub now (lastNetworkRead st)) > 0"
      and dist: "distinct (map IfaceName (Interfaces current))"
      and perm: "mset (srt speedLess
                   (computeSpeeds prev (Seconds (Sub now (lastNetworkRead st))) now
                      (Interfaces current) []))
                 = mset (computeSpeeds prev (Seconds (Sub now (lastNetworkRead st))) now
                      (Interfaces current) [])"
      and c: "c \<in> set (Interfaces current)"
      and p: "prev (IfaceName c) = Some p"
  shows "\<exists>out. fst (GetNetworkSpeeds srt (Inr current) now st) = Inr out
           \<and> ((\<exists>s \<in> set out. Interface s = IfaceName c) \<longleftrightarrow>
                (UploadKBps (speedOf c p (Seconds (Sub now (lastNetworkRead st))) now) > float64 (1 / 10)
                 \<or> DownloadKBps (speedOf c p (Seconds (Sub now (lastNetworkRead st))) now) > float64 (1 / 10)))
           \<and> (\<forall>s \<in> set out. Interface s = IfaceName c \<longrightarrow>
                 s = speedOf c p (Seconds (Sub now (lastNetworkRead st))) now)"
proof -
  define dt where "dt = Seconds (Sub now (lastNetworkRead st))"
  obtain out where res: "fst (GetNetworkSpeeds srt (Inr current) now st) = Inr out"
    and out: "set out = {speedOf c p dt now | c p. c \<in> set (Interfaces current)
                \<and> prev (IfaceName c) = Some p
                \<and> (UploadKBps (speedOf c p dt now) > float64 (1 / 10) \<or> DownloadKBps (speedOf c p dt now) > float64 (1 / 10))}"
    using GetNetworkSpeeds_output [where srt = srt and st = st and current = current
        and now = now and prev = prev] prev dt perm
    unfolding dt_def by blast
  have uniq: "c' = c" if "c' \<in> set (Interfaces current)" "IfaceName c' = IfaceName c" for c'
    using that c dist by (meson distinct_map inj_onD)
  have only: "s = speedOf c p dt now" if "s \<in> set out" "Interface s = IfaceName c" for s
  proof -
    from that(1) obtain c' p' where h: "s = speedOf c' p' dt now" "c' \<in> set (Interfaces current)"
      "prev (IfaceName c') = Some p'"
      using out by auto
    then have "c' = c" using uniq that(2) by simp
    then show ?thesis using h p by simp
  qed
  have iff: "(\<exists>s \<in> set out. Interface s = IfaceName c) \<longleftrightarrow>
     (UploadKBps (speedOf c p dt now) > float64 (1 / 10) \<or> DownloadKBps (speedOf c p dt now) > float64 (1 / 10))"
  proof
    assume "\<exists>s \<in> set out. Interface s = IfaceName c"
    then obtain s where s: "s \<in> set out" "Interface s = IfaceName c" by blast
    then have "s = speedOf c p dt now" by (rule only)
    then have "speedOf c p dt now \<in> set out" using s by simp
    then obtain c' p' where h: "speedOf c p dt now = speedOf c' p' dt now"
      "UploadKBps (speedOf c' p' dt now) > float64 (1 / 10) \<or> DownloadKBps (speedOf c' p' dt now) > float64 (1 / 10)"
      unfolding out by blast
    then show "UploadKBps (speedOf c p dt now) > float64 (1 / 10) \<or> DownloadKBps (speedOf c p dt now) > float64 (1 / 10)"
      by simp
  next
    assume "UploadKBps (speedOf c p dt now) > float64 (1 / 10) \<or> DownloadKBps (speedOf c p dt now) > float64 (1 / 10)"
    then have "speedOf c p dt now \<in> set out" unfolding out using c p by blast
    then show "\<exists>s \<in> set out. Interface s = IfaceName c" by force
  qed
  show ?thesis
    using res iff only unfolding dt_def by blast
qed

lemma baselineOf_pair:
  "previousNetStats (baselineOf [row ''eth0'' 1000 2000, row ''wlan0'' 500 700] (5 * Second))
     = Some [''eth0'' \<mapsto> mkInterface (row ''eth0'' 1000 2000) (5 * Second),
             ''wlan0'' \<mapsto> mkInterface (row ''wlan0'' 500 700) (5 * Second)]"
  "lastNetworkRead (baselineOf [row ''eth0'' 1000 2000, row ''wlan0'' 500 700] (5 * Second))
     = 5 * Second"
  by (simp_all add: baselineOf_def mkInterface_def row_def)

lemma poll_pair:
  "GetNetworkStats sort_Slice (pollOf [row ''wlan0'' 500 700, row ''eth0'' 2000 2048] (7 * Second))
     = Inr (statsOf [mkInterface (row ''eth0'' 2000 2048) (7 * Second),
                     mkInterface (row ''wlan0'' 500 700) (7 * Second)] 2500 2748 2 (7 * Second))"
  by (simp add: GetNetworkStats_def pollOf_def statsOf_def row_def mkInterface_def
      isLoopbackInterface_def getConnectionCount_def trafficLess_def go_sort_simps)

text \<open>
  Two interfaces in the store of second 5; at second 7 \<open>eth0\<close> has sent 1000 bytes more and
  received 48 more, \<open>wlan0\<close> has not moved. The point of \<open>eth0\<close> is reported with its
  download rate of 3/128 KB/s, below the threshold; \<open>wlan0\<close> has no point.
\<close>

theorem rate_point_gate_witness:
  "fst (GetNetworkSpeeds sort_Slice
     (GetNetworkStats sort_Slice (pollOf [row ''wlan0'' 500 700, row ''eth0'' 2000 2048] (7 * Second)))
     (7 * Second) (baselineOf [row ''eth0'' 1000 2000, row ''wlan0'' 500 700] (5 * Second)))
   = Inr [\<lparr>Interface = ''eth0'', UploadKBps = 125 / 256, DownloadKBps = 3 / 128,
           Timestamp = 7 * Second\<rparr>]"
proof -
  let ?st = "baselineOf [row ''eth0'' 1000 2000, row ''wlan0'' 500 700] (5 * Second)"
  let ?cur = "statsOf [mkInterface (row ''eth0'' 2000 2048) (7 * Second),
                     mkInterface (row ''wlan0'' 500 700) (7 * Second)] 2500 2748 2 (7 * Second)"
  have dt2: "Seconds (Sub (7 * Second) (lastNetworkRead ?st)) = 2"
    by (simp only: baselineOf_pair Seconds_Sub_example)
  have dt: "Seconds (Sub (7 * Second) (lastNetworkRead ?st)) > 0"
    by (simp add: dt2)
  have dist: "distinct (map IfaceName (Interfaces ?cur))"
    by (simp add: statsOf_def mkInterface_def row_def)
  have raw: "computeSpeeds [''eth0'' \<mapsto> mkInterface (row ''eth0'' 1000 2000) (5 * Second),
                            ''wlan0'' \<mapsto> mkInterface (row ''wlan0'' 500 700) (5 * Second)]
               (Seconds (Sub (7 * Second) (lastNetworkRead ?st))) (7 * Second) (Interfaces ?cur) []
             = [\<lparr>Interface = ''eth0'', UploadKBps = 125 / 256, DownloadKBps = 3 / 128,
                 Timestamp = 7 * Second\<rparr>]"
    unfolding dt2
    by (simp add: statsOf_def speedOf_def mkInterface_def row_def float64_simps)
  have perm: "mset (sort_Slice speedLess
                (computeSpeeds [''eth0'' \<mapsto> mkInterface (row ''eth0'' 1000 2000) (5 * Second),
                            ''wlan0'' \<mapsto> mkInterface (row ''wlan0'' 500 700) (5 * Second)]
                  (Seconds (Sub (7 * Second) (lastNetworkRead ?st))) (7 * Second) (Interfaces ?cur) []))
              = mset (computeSpeeds [''eth0'' \<mapsto> mkInterface (row ''eth0'' 1000 2000) (5 * Second),
                            ''wlan0'' \<mapsto> mkInterface (row ''wlan0'' 500 700) (5 * Second)]
                  (Seconds (Sub (7 * Second) (lastNetworkRead ?st))) (7 * Second) (Interfaces ?cur) [])"
    unfolding raw by (simp add: go_sort_simps)
  have c: "mkInterface (row ''wlan0'' 500 700) (7 * Second) \<in> set (Interfaces ?cur)"
    by (simp add: statsOf_def)
  have p: "[''eth0'' \<mapsto> mkInterface (row ''eth0'' 1000 2000) (5 * Second),
            ''wlan0'' \<mapsto> mkInterface (row ''wlan0'' 500 700) (5 * Second)]
             (IfaceName (mkInterface (row ''wlan0'' 500 700) (7 * Second)))
           = Some (mkInterface (row ''wlan0'' 500 700) (5 * Second))"
    by (simp add: mkInterface_def row_def)
  show ?thesis
    using rate_point_gate [where srt = sort_Slice, OF baselineOf_pair(1) dt dist perm c p]
    unfolding poll_pair dt2
    by (simp add: GetNetworkSpeeds_def baselineOf_def Seconds_Sub_example statsOf_def
        speedOf_def mkInterface_def row_def speedLess_def go_sort_simps float64_simps)
qed

section \<open>Throughput: a counter that went down\<close>

lemma unat_sub_wrap:
  fixes a b :: uint64
  assumes "a < b"
  shows "unat (a - b) = 2 ^ 64 - (unat b - unat a)"
proof -
  have lt: "unat a < unat b" using assms by (simp add: word_less_nat_alt)
  have bb: "unat b < 2 ^ 64" using unsigned_less [of b] by simp
  have "unat (a - b) = unat a + 2 ^ 64 - unat b"
    using lt by (simp add: unat_sub_if_size word_size)
  then show ?thesis using lt bb by simp
qed

lemma unat_sub_wrap_pos:
  fixes a b :: uint64
  assumes "a < b"
  shows "0 < unat (a - b)"
proof -
  have "a - b \<noteq> 0" using assms by auto
  then show ?thesis by (simp add: unat_gt_0)
qed

lemma Seconds_Sub_le: "Seconds (Sub now lst) \<le> 9223372037"
  by (rule Seconds_le) (simp add: Sub_def maxDuration_def minDuration_def)

text \<open>
  A difference of at least \<open>2^63\<close> bytes over the longest elapsed time is still more than
  900000 KB/s after the three roundings.
\<close>

lemma wrapped_rate_large:
  fixes D :: nat and dt :: real
  assumes "0 < dt" and "dt \<le> 9223372037" and "2 ^ 63 \<le> D"
  shows "fdiv (fdiv (float64 (real D)) dt) 1024 > 900000"
proof -
  have "(2::real) ^ 63 \<le> real D"
    using assms(3) by (metis of_nat_le_iff of_nat_numeral of_nat_power)
  then have "float64 9223372036854775808 \<le> float64 (real D)"
    by (intro float64_mono) simp_all
  then have f: "9223372036854775808 \<le> float64 (real D)"
    by (simp only: float64_exact_examples)
  have "999999999 * dt \<le> 999999999 * 9223372037" using assms(2) by simp
  then have "999999999 * dt \<le> float64 (real D)" using f by simp
  then have "999999999 \<le> float64 (real D) / dt"
    using assms(1) by (simp add: pos_le_divide_eq)
  then have "float64 999999999 \<le> float64 (float64 (real D) / dt)"
    by (intro float64_mono) simp_all
  then have q: "999999999 \<le> float64 (float64 (real D) / dt)"
    by (simp only: float64_exact_examples)
  then have "976562 \<le> float64 (float64 (real D) / dt) / 1024" by simp
  then have "float64 976562 \<le> float64 (float64 (float64 (real D) / dt) / 1024)"
    by (intro float64_mono) simp_all
  then have "976562 \<le> float64 (float64 (float64 (real D) / dt) / 1024)"
    by (simp only: float64_exact_examples)
  then show ?thesis by (simp add: fdiv_def)
qed

lemma positive_rate:
  fixes D :: nat and dt :: real
  assumes "0 < dt" and "0 < D"
  shows "fdiv (fdiv (float64 (real D)) dt) 1024 > 0"
proof -
  have "0 < float64 (real D)" using assms(2) by (intro float64_pos) simp
  then have "0 < float64 (float64 (real D) / dt)" using assms(1) by (intro float64_pos) simp
  then have "0 < float64 (float64 (float64 (real D) / dt) / 1024)" by (intro float64_pos) simp
  then show ?thesis by (simp add: fdiv_def)
qed

text \<open>The rates of one interface, for a sent (a received) counter below the stored one.\<close>

lemma upload_wrapped:
  assumes "BytesSent c < BytesSent p" and "0 < dt"
  shows "UploadKBps (speedOf c p dt now)
           = fdiv (fdiv (float64 (real (2 ^ 64 - (unat (BytesSent p) - unat (BytesSent c))))) dt) 1024"
    and "UploadKBps (speedOf c p dt now) > 0"
proof -
  show e: "UploadKBps (speedOf c p dt now)
           = fdiv (fdiv (float64 (real (2 ^ 64 - (unat (BytesSent p) - unat (BytesSent c))))) dt) 1024"
    using unat_sub_wrap [OF assms(1)] by (simp add: speedOf_def Let_def)
  have "0 < 2 ^ 64 - (unat (BytesSent p) - unat (BytesSent c))"
    using unat_sub_wrap [OF assms(1)] unat_sub_wrap_pos [OF assms(1)] by simp
  then show "UploadKBps (speedOf c p dt now) > 0"
    unfolding e by (rule positive_rate [OF assms(2)])
qed

lemma download_wrapped:
  assumes "BytesRecv c < BytesRecv p" and "0 < dt"
  shows "DownloadKBps (speedOf c p dt now)
           = fdiv (fdiv (float64 (real (2 ^ 64 - (unat (BytesRecv p) - unat (BytesRecv c))))) dt) 1024"
    and "DownloadKBps (speedOf c p dt now) > 0"
proof -
  show e: "DownloadKBps (speedOf c p dt now)
           = fdiv (fdiv (float64 (real (2 ^ 64 - (unat (BytesRecv p) - unat (BytesRecv c))))) dt) 1024"
    using unat_sub_wrap [OF assms(1)] by (simp add: speedOf_def Let_def)
  have "0 < 2 ^ 64 - (unat (BytesRecv p) - unat (BytesRecv c))"
    using unat_sub_wrap [OF assms(1)] unat_sub_wrap_pos [OF assms(1)] by simp
  then show "DownloadKBps (speedOf c p dt now) > 0"
    unfolding e by (rule positive_rate [OF assms(2)])
qed

text \<open>
  Claim C10, as stated, says that a counter below the stored one always yields an enormous
  rate in the output. The difference is taken modulo \<open>2^64\<close>, so it is small when the stored
  counter was near the top of the range: with 18446744073709551615 bytes stored and 0
  bytes polled one second later the difference is 1 byte, the rate is 1/1024 KB/s, and
  the filter drops the point.
\<close>

theorem wrapped_counter_small_rate:
  "fst (GetNetworkSpeeds sort_Slice
     (GetNetworkStats sort_Slice (pollOf [row ''eth0'' 0 0] (6 * Second))) (6 * Second)
     (baselineOf [row ''eth0'' 18446744073709551615 0] (5 * Second)))
   = Inr []
   \<and> UploadKBps (speedOf (mkInterface (row ''eth0'' 0 0) (6 * Second))
        (mkInterface (row ''eth0'' 18446744073709551615 0) (5 * Second))
        (Seconds (Sub (6 * Second) (5 * Second))) (6 * Second))
     = 1 / 1024"
proof -
  have p: "GetNetworkStats sort_Slice (pollOf [row ''eth0'' 0 0] (6 * Second))
     = Inr (statsOf [mkInterface (row ''eth0'' 0 0) (6 * Second)] 0 0 0 (6 * Second))"
    by (simp add: GetNetworkStats_def pollOf_def statsOf_def row_def mkInterface_def
      isLoopbackInterface_def getConnectionCount_def go_sort_simps)
  have d: "Seconds (Sub (6 * Second) (5 * Second)) = 1"
    by (simp add: Sub_def maxDuration_def minDuration_def Second_def Seconds_examples)
  show ?thesis
    unfolding p d
    by (simp add: GetNetworkSpeeds_def baselineOf_def statsOf_def speedOf_def mkInterface_def
        row_def d go_sort_simps float64_simps)
qed

text \<open>
  Claim C10, amended. For an interface in the current poll and in the store, a call with
  positive elapsed time takes the difference of the byte counters modulo \<open>2^64\<close>: when the
  current counter is below the stored one the difference is \<open>2^64\<close> minus the drop, which is
  positive; the rate is that difference converted to \<^verbatim>\<open>float64\<close> and divided by the elapsed
  seconds and by 1024, and it is positive, never zero or negative. When the drop is at
  most \<open>2^63\<close> the rate is above 900000 KB/s and the rate point is in the output. (The
  sorting routine is assumed to rearrange the list of rate points.)
\<close>

theorem counter_regression_wraps:
  assumes prev: "previousNetStats st = Some prev"
      and dt: "Seconds (Sub now (lastNetworkRead st)) > 0"
      and perm: "mset (srt speedLess
                   (computeSpeeds prev (Seconds (Sub now (lastNetworkRead st))) now
                      (Interfaces current) []))
                 = mset (computeSpeeds prev (Seconds (Sub now (lastNetworkRead st))) now
                      (Interfaces current) [])"
      and c: "c \<in> set (Interfaces current)"
      and p: "prev (IfaceName c) = Some p"
  shows "(BytesSent c < BytesSent p \<longrightarrow>
            unat (BytesSent c - BytesSent p) = 2 ^ 64 - (unat (BytesSent p) - unat (BytesSent c))
            \<and> UploadKBps (speedOf c p (Seconds (Sub now (lastNetworkRead st))) now)
                = fdiv (fdiv (float64 (real (2 ^ 64 - (unat (BytesSent p) - unat (BytesSent c)))))
                          (Seconds (Sub now (lastNetworkRead st)))) 1024
            \<and> UploadKBps (speedOf c p (Seconds (Sub now (lastNetworkRead st))) now) > 0
            \<and> (unat (BytesSent p) - unat (BytesSent c) \<le> 2 ^ 63 \<longrightarrow>
                 UploadKBps (speedOf c p (Seconds (Sub now (lastNetworkRead st))) now) > 900000
                 \<and> (\<exists>out. fst (GetNetworkSpeeds srt (Inr current) now st) = Inr out
                       \<and> speedOf c p (Seconds (Sub now (lastNetworkRead st))) now \<in> set out)))
       \<and> (BytesRecv c < BytesRecv p \<longrightarrow>
            unat (BytesRecv c - BytesRecv p) = 2 ^ 64 - (unat (BytesRecv p) - unat (BytesRecv c))
            \<and> DownloadKBps (speedOf c p (Seconds (Sub now (lastNetworkRead st))) now)
                = fdiv (fdiv (float64 (real (2 ^ 64 - (unat (BytesRecv p) - unat (BytesRecv c)))))
                          (Seconds (Sub now (lastNetworkRead st)))) 1024
            \<and> DownloadKBps (speedOf c p (Seconds (Sub now (lastNetworkRead st))) now) > 0
            \<and> (unat (BytesRecv p) - unat (BytesRecv c) \<le> 2 ^ 63 \<longrightarrow>
                 DownloadKBps (speedOf c p (Seconds (Sub now (lastNetworkRead st))) now) > 900000
                 \<and> (\<exists>out. fst (GetNetworkSpeeds srt (Inr current) now st) = Inr out
                       \<and> speedOf c p (Seconds (Sub now (lastNetworkRead st))) now \<in> set out)))"
proof -
  define dt where "dt = Seconds (Sub now (lastNetworkRead st))"
  have dt0: "0 < dt" and dtmax: "dt \<le> 9223372037"
    using dt Seconds_Sub_le unfolding dt_def by simp_all
  obtain out where res: "fst (GetNetworkSpeeds srt (Inr current) now st) = Inr out"
    and out: "set out = {speedOf c p dt now | c p. c \<in> set (Interfaces current)
                \<and> prev (IfaceName c) = Some p
                \<and> (UploadKBps (speedOf c p dt now) > float64 (1 / 10) \<or> DownloadKBps (speedOf c p dt now) > float64 (1 / 10))}"
    using GetNetworkSpeeds_output [where srt = srt and st = st and current = current
        and now = now and prev = prev] prev dt perm
    unfolding dt_def by blast
  have emitted: "speedOf c p dt now \<in> set out"
    if "UploadKBps (speedOf c p dt now) > 900000 \<or> DownloadKBps (speedOf c p dt now) > 900000"
  proof -
    have "UploadKBps (speedOf c p dt now) > float64 (1 / 10)
          \<or> DownloadKBps (speedOf c p dt now) > float64 (1 / 10)"
      using that by (auto simp: float64_tenth)
    then show ?thesis unfolding out using c p by blast
  qed
  have up: "UploadKBps (speedOf c p dt now) > 900000"
    if "BytesSent c < BytesSent p" "unat (BytesSent p) - unat (BytesSent c) \<le> 2 ^ 63"
  proof -
    have "(2::nat) ^ 63 \<le> 2 ^ 64 - (unat (BytesSent p) - unat (BytesSent c))"
      using that(2) by simp
    then have "fdiv (fdiv (float64 (real (2 ^ 64 - (unat (BytesSent p) - unat (BytesSent c))))) dt) 1024
                 > 900000"
      by (rule wrapped_rate_large [OF dt0 dtmax])
    then show ?thesis
      by (simp only: upload_wrapped(1) [OF that(1) dt0])
  qed
  have down: "DownloadKBps (speedOf c p dt now) > 900000"
    if "BytesRecv c < BytesRecv p" "unat (BytesRecv p) - unat (BytesRecv c) \<le> 2 ^ 63"
  proof -
    have "(2::nat) ^ 63 \<le> 2 ^ 64 - (unat (BytesRecv p) - unat (BytesRecv c))"
      using that(2) by simp
    then have "fdiv (fdiv (float64 (real (2 ^ 64 - (unat (BytesRecv p) - unat (BytesRecv c))))) dt) 1024
                 > 900000"
      by (rule wrapped_rate_large [OF dt0 dtmax])
    then show ?thesis
      by (simp only: download_wrapped(1) [OF that(1) dt0])
  qed
  have sent: "BytesSent c < BytesSent p \<longrightarrow>
            unat (BytesSent c - BytesSent p) = 2 ^ 64 - (unat (BytesSent p) - unat (BytesSent c))
            \<and> UploadKBps (speedOf c p dt now)
                = fdiv (fdiv (float64 (real (2 ^ 64 - (unat (BytesSent p) - unat (BytesSent c))))) dt) 1024
            \<and> UploadKBps (speedOf c p dt now) > 0
            \<and> (unat (BytesSent p) - unat (BytesSent c) \<le> 2 ^ 63 \<longrightarrow>
                 UploadKBps (speedOf c p dt now) > 900000
                 \<and> (\<exists>out. fst (GetNetworkSpeeds srt (Inr current) now st) = Inr out
                       \<and> speedOf c p dt now \<in> set out))"
    using unat_sub_wrap upload_wrapped [OF _ dt0] up emitted res by blast
  have recv: "BytesRecv c < BytesRecv p \<longrightarrow>
            unat (BytesRecv c - BytesRecv p) = 2 ^ 64 - (unat (BytesRecv p) - unat (BytesRecv c))
            \<and> DownloadKBps (speedOf c p dt now)
                = fdiv (fdiv (float64 (real (2 ^ 64 - (unat (BytesRecv p) - unat (BytesRecv c))))) dt) 1024
            \<and> DownloadKBps (speedOf c p dt now) > 0
            \<and> (unat (BytesRecv p) - unat (BytesRecv c) \<le> 2 ^ 63 \<longrightarrow>
                 DownloadKBps (speedOf c p dt now) > 900000
                 \<and> (\<exists>out. fst (GetNetworkSpeeds srt (Inr current) now st) = Inr out
                       \<and> speedOf c p dt now \<in> set out))"
    using unat_sub_wrap download_wrapped [OF _ dt0] down emitted res by blast
  show ?thesis using sent recv unfolding dt_def by (rule conjI)
qed

text \<open>
  \<open>eth0\<close> stored with 5000 bytes sent, polled two seconds later with 1000: the difference is
  \<open>2^64 - 4000\<close> bytes, which the conversion to \<^verbatim>\<open>float64\<close> rounds to \<open>2^64 - 4096\<close>, and the
  reported upload rate is \<open>(2^64 - 4096) / 2 / 1024 = 9007199254740990\<close> KB/s.
\<close>

theorem counter_regression_wraps_witness:
  "fst (GetNetworkSpeeds sort_Slice
     (GetNetworkStats sort_Slice (pollOf [row ''eth0'' 1000 2048] (7 * Second))) (7 * Second)
     (baselineOf [row ''eth0'' 5000 2000] (5 * Second)))
   = Inr [\<lparr>Interface = ''eth0'', UploadKBps = 9007199254740990,
           DownloadKBps = 3 / 128, Timestamp = 7 * Second\<rparr>]"
proof -
  let ?st = "baselineOf [row ''eth0'' 5000 2000] (5 * Second)"
  let ?cur = "statsOf [mkInterface (row ''eth0'' 1000 2048) (7 * Second)] 1000 2048 1 (7 * Second)"
  let ?prev = "[''eth0'' \<mapsto> mkInterface (row ''eth0'' 5000 2000) (5 * Second)]"
  have poll: "GetNetworkStats sort_Slice (pollOf [row ''eth0'' 1000 2048] (7 * Second)) = Inr ?cur"
    by (simp add: GetNetworkStats_def pollOf_def statsOf_def row_def mkInterface_def
      isLoopbackInterface_def getConnectionCount_def go_sort_simps)
  have st: "previousNetStats ?st = Some ?prev" "lastNetworkRead ?st = 5 * Second"
    by (simp_all add: baselineOf_def mkInterface_def row_def)
  have dt2: "Seconds (Sub (7 * Second) (lastNetworkRead ?st)) = 2"
    by (simp only: st Seconds_Sub_example)
  have dt: "Seconds (Sub (7 * Second) (lastNetworkRead ?st)) > 0"
    by (simp add: dt2)
  have raw: "computeSpeeds ?prev (Seconds (Sub (7 * Second) (lastNetworkRead ?st))) (7 * Second)
               (Interfaces ?cur) []
             = [\<lparr>Interface = ''eth0'', UploadKBps = 9007199254740990,
                 DownloadKBps = 3 / 128, Timestamp = 7 * Second\<rparr>]"
    unfolding dt2
    by (simp add: statsOf_def speedOf_def mkInterface_def row_def float64_simps)
  have perm: "mset (sort_Slice speedLess
                (computeSpeeds ?prev (Seconds (Sub (7 * Second) (lastNetworkRead ?st))) (7 * Second)
                   (Interfaces ?cur) []))
              = mset (computeSpeeds ?prev (Seconds (Sub (7 * Second) (lastNetworkRead ?st)))
                   (7 * Second) (Interfaces ?cur) [])"
    unfolding raw by (simp add: go_sort_simps)
  have c: "mkInterface (row ''eth0'' 1000 2048) (7 * Second) \<in> set (Interfaces ?cur)"
    by (simp add: statsOf_def)
  have p: "?prev (IfaceName (mkInterface (row ''eth0'' 1000 2048) (7 * Second)))
           = Some (mkInterface (row ''eth0'' 5000 2000) (5 * Second))"
    by (simp add: mkInterface_def row_def)
  show ?thesis
    using counter_regression_wraps [where srt = sort_Slice, OF st(1) dt perm c p]
    unfolding poll dt2
    by (simp add: GetNetworkSpeeds_def baselineOf_def Seconds_Sub_example statsOf_def
        speedOf_def mkInterface_def row_def speedLess_def go_sort_simps float64_simps)
qed

section \<open>Interface statistics: loopback interfaces\<close>









section \<open>Ranking of processes\<close>

lemma cpuLess_procAt [simp]: "cpuLess (procAt i a) (procAt j b) \<longleftrightarrow> b < a"
  by (simp add: cpuLess_def procAt_def)

lemma CPUPercent_procAt [simp]: "CPUPercent (procAt i a) = a"
  by (simp add: procAt_def)

lemma procAt_eq [simp]: "procAt i a = procAt j b \<longleftrightarrow> i = j \<and> a = b"
  by (auto simp: procAt_def)

text \<open>The stable ranking is sorted, rearranges its input and keeps ties in input order.\<close>

lemma stable_sort_spec:
  fixes metric :: "'a \<Rightarrow> real"
  shows "sorted_wrt (\<lambda>x y. metric x \<ge> metric y) (sort_key (\<lambda>p. - metric p) ps)"
  "mset (sort_key (\<lambda>p. - metric p) ps) = mset ps"
  "[p \<leftarrow> sort_key (\<lambda>p. - metric p) ps. metric p = v] = [p \<leftarrow> ps. metric p = v]"
proof -
  have "sorted (map (\<lambda>p. - metric p) (sort_key (\<lambda>p. - metric p) ps))" by (rule sorted_sort_key)
  then show "sorted_wrt (\<lambda>x y. metric x \<ge> metric y) (sort_key (\<lambda>p. - metric p) ps)"
    by (simp add: sorted_map)
  show "mset (sort_key (\<lambda>p. - metric p) ps) = mset ps" by simp
  have "[p \<leftarrow> sort_key (\<lambda>p. - metric p) ps. - metric p = - v] = [p \<leftarrow> ps. - metric p = - v]"
    by (rule sort_key_stable)
  then show "[p \<leftarrow> sort_key (\<lambda>p. - metric p) ps. metric p = v] = [p \<leftarrow> ps. metric p = v]"
    by simp
qed




section \<open>Ranking of up to twelve processes\<close>

text \<open>
  On a range of at most twelve elements \<^verbatim>\<open>pdqsort_func\<close> runs \<^verbatim>\<open>insertionSort_func\<close> and
  nothing else. The lemmas below follow the two loops of the insertion sort on the slice
  and identify the result.
\<close>

lemma length_insertLeft [simp]: "length (insertLeft lt x ys) = Suc (length ys)"
  by (induction ys) simp_all

lemma insertionInner_eq:
  "k < length xs \<Longrightarrow>
   insertionInner lt 0 (int k) xs
     = rev (insertLeft lt (xs ! k) (rev (take k xs))) @ drop (Suc k) xs"
proof (induction k arbitrary: xs)
  case 0
  then show ?case
    by (subst insertionInner.simps) (simp add: Cons_nth_drop_Suc)
next
  case (Suc k)
  have kl: "k < length xs" using Suc.prems by simp
  have tk: "take (Suc k) xs = take k xs @ [xs ! k]"
    using kl by (simp add: take_Suc_conv_app_nth)
  show ?case
  proof (cases "lt (xs ! Suc k) (xs ! k)")
    case True
    define ys where "ys = Swap xs (int (Suc k)) (int (Suc k) - 1)"
    have ys: "ys = xs[Suc k := xs ! k, k := xs ! Suc k]"
      by (simp add: ys_def Swap_def nat_add_distrib)
    have len: "k < length ys" using kl by (simp add: ys)
    have "insertionInner lt 0 (int (Suc k)) xs = insertionInner lt 0 (int k) ys"
      using True by (subst insertionInner.simps) (simp add: Less_def ys_def nat_add_distrib)
    also have "\<dots> = rev (insertLeft lt (ys ! k) (rev (take k ys))) @ drop (Suc k) ys"
      using Suc.IH [OF len] .
    also have "ys ! k = xs ! Suc k" using kl by (simp add: ys)
    also have "take k ys = take k xs" by (simp add: ys)
    also have "drop (Suc k) ys = xs ! k # drop (Suc (Suc k)) xs"
      using Suc.prems by (simp add: ys drop_update_swap Cons_nth_drop_Suc [symmetric] upd_conv_take_nth_drop)
    finally show ?thesis using True by (simp add: tk)
  next
    case False
    have "insertionInner lt 0 (int (Suc k)) xs = xs"
      using False by (subst insertionInner.simps) (simp add: Less_def nat_add_distrib)
    moreover have "xs = take (Suc k) xs @ xs ! Suc k # drop (Suc (Suc k)) xs"
      using Suc.prems by (simp add: id_take_nth_drop [symmetric])
    ultimately show ?thesis using False by (simp add: tk)
  qed
qed


lemma length_insertionInner:
  "k < length xs \<Longrightarrow> length (insertionInner lt 0 (int k) xs) = length xs"
  by (simp add: insertionInner_eq)

lemma insertionOuter_eq:
  "k \<le> length xs \<Longrightarrow>
   insertionOuter lt 0 (int (length xs)) (int k) xs
     = rev (insertAll lt (rev (take k xs)) (drop k xs))"
proof (induction "length xs - k" arbitrary: k xs)
  case 0
  then have "k = length xs" by simp
  then show ?case by (subst insertionOuter.simps) simp
next
  case (Suc d)
  then have kl: "k < length xs" by simp
  define ys where "ys = insertionInner lt 0 (int k) xs"
  have ys: "ys = rev (insertLeft lt (xs ! k) (rev (take k xs))) @ drop (Suc k) xs"
    unfolding ys_def using kl by (rule insertionInner_eq)
  have len: "length ys = length xs"
    unfolding ys_def using kl by (rule length_insertionInner)
  have lk: "length (rev (insertLeft lt (xs ! k) (rev (take k xs)))) = Suc k"
    using kl by simp
  have tk: "take (Suc k) ys = rev (insertLeft lt (xs ! k) (rev (take k xs)))"
    unfolding ys using lk by simp
  have dk: "drop (Suc k) ys = drop (Suc k) xs"
    unfolding ys using lk by simp
  have "insertionOuter lt 0 (int (length xs)) (int k) xs
          = insertionOuter lt 0 (int (length ys)) (int (Suc k)) ys"
    using kl by (subst insertionOuter.simps) (simp add: ys_def [symmetric] len add.commute)
  also have "\<dots> = rev (insertAll lt (rev (take (Suc k) ys)) (drop (Suc k) ys))"
    using Suc kl len by (intro Suc.hyps(1)) simp_all
  also have "\<dots> = rev (insertAll lt (rev (take k xs)) (xs ! k # drop (Suc k) xs))"
    by (simp add: tk dk)
  also have "xs ! k # drop (Suc k) xs = drop k xs"
    using kl by (rule Cons_nth_drop_Suc)
  finally show ?case .
qed

lemma insertionSort_func_eq:
  "insertionSort_func lt xs 0 (int (length xs)) = rev (insertAll lt [] xs)"
proof (cases xs)
  case Nil
  then show ?thesis
    by (simp add: insertionSort_func_def) (subst insertionOuter.simps, simp)
next
  case (Cons x rest)
  have "insertionSort_func lt xs 0 (int (length xs))
          = insertionOuter lt 0 (int (length xs)) (int 1) xs"
    by (simp add: insertionSort_func_def)
  also have "\<dots> = rev (insertAll lt (rev (take 1 xs)) (drop 1 xs))"
    using Cons by (intro insertionOuter_eq) simp
  finally show ?thesis using Cons by simp
qed

lemma sort_Slice_short:
  "length xs \<le> 12 \<Longrightarrow> sort_Slice lt xs = rev (insertAll lt [] xs)"
  by (simp add: sort_Slice_def pdqsort_func.simps insertionSort_func_eq)

text \<open>
  For a comparison by a key the insertion sort is the stable sort by that key.
\<close>

lemma mset_insertLeft [simp]: "mset (insertLeft lt x ys) = add_mset x (mset ys)"
  by (induction ys) simp_all

lemma mset_insertAll [simp]: "mset (insertAll lt acc rest) = mset acc + mset rest"
  by (induction rest arbitrary: acc) simp_all

lemma filter_insertLeft:
  fixes f :: "'a \<Rightarrow> 'k::linorder"
  shows "filter (\<lambda>y. f y = k) (insertLeft (\<lambda>x y. f x < f y) x ys)
           = filter (\<lambda>y. f y = k) (x # ys)"
  by (induction ys) auto

lemma filter_insertAll:
  fixes f :: "'a \<Rightarrow> 'k::linorder"
  shows "filter (\<lambda>y. f y = k) (insertAll (\<lambda>x y. f x < f y) acc rest)
           = rev (filter (\<lambda>y. f y = k) rest) @ filter (\<lambda>y. f y = k) acc"
  by (induction rest arbitrary: acc) (simp_all add: filter_insertLeft)

lemma sorted_insertLeft:
  fixes f :: "'a \<Rightarrow> 'k::linorder"
  assumes "sorted_wrt (\<lambda>a b. f b \<le> f a) ys"
  shows "sorted_wrt (\<lambda>a b. f b \<le> f a) (insertLeft (\<lambda>x y. f x < f y) x ys)"
  using assms
proof (induction ys)
  case Nil
  then show ?case by simp
next
  case (Cons y ys)
  have "set (insertLeft (\<lambda>x y. f x < f y) x ys) = insert x (set ys)"
    by (metis mset_insertLeft set_mset_add_mset_insert set_mset_mset)
  then show ?case using Cons by (auto simp: less_imp_le)
qed

lemma sorted_insertAll:
  fixes f :: "'a \<Rightarrow> 'k::linorder"
  assumes "sorted_wrt (\<lambda>a b. f b \<le> f a) acc"
  shows "sorted_wrt (\<lambda>a b. f b \<le> f a) (insertAll (\<lambda>x y. f x < f y) acc rest)"
  using assms by (induction rest arbitrary: acc) (simp_all add: sorted_insertLeft)

lemma sort_Slice_short_stable:
  fixes f :: "'a \<Rightarrow> 'k::linorder"
  assumes "length xs \<le> 12"
  shows "sort_Slice (\<lambda>x y. f x < f y) xs = sort_key f xs"
proof -
  define R where "R = rev (insertAll (\<lambda>x y. f x < f y) [] xs)"
  have m: "mset R = mset xs" by (simp add: R_def)
  have s: "sorted (map f R)"
    unfolding R_def sorted_map sorted_wrt_rev by (rule sorted_insertAll) simp
  have st: "filter (\<lambda>x. f k = f x) R = filter (\<lambda>x. f k = f x) xs" for k
  proof -
    have "filter (\<lambda>y. f y = f k) R = filter (\<lambda>y. f y = f k) xs"
      by (simp add: R_def rev_filter [symmetric] filter_insertAll)
    moreover have "(\<lambda>x. f k = f x) = (\<lambda>y. f y = f k)" by auto
    ultimately show ?thesis by simp
  qed
  have "sort_key f xs = R"
    using m st s by (rule properties_for_sort_key)
  then show ?thesis
    using assms by (simp add: sort_Slice_short R_def)
qed

text \<open>
  With at most twelve processes the ranking of \<^verbatim>\<open>getTopProcesses\<close> under Go's routine is
  the stable one: sorted descending by the metric, ties in input order, cut at the limit.
\<close>

theorem top_processes_stable_up_to_twelve:
  assumes "length processes \<le> 12"
      and "sortBy = ''cpu'' \<or> sortBy = ''memory''"
      and "0 \<le> limit"
  shows "getTopProcesses sort_Slice processes sortBy limit
           = Inr (stableTopN (metricOf sortBy) (nat limit) processes)"
proof -
  define f where "f = (\<lambda>p. - metricOf sortBy p)"
  have c: "cpuLess = (\<lambda>x y. - CPUPercent x < - CPUPercent y)"
    by (simp add: fun_eq_iff cpuLess_def)
  have m: "memLess = (\<lambda>x y. - MemPercent x < - MemPercent y)"
    by (simp add: fun_eq_iff memLess_def)
  have lt: "(if sortBy = ''cpu'' then sort_Slice cpuLess processes
             else if sortBy = ''memory'' then sort_Slice memLess processes
             else processes) = sort_Slice (\<lambda>x y. f x < f y) processes"
    using assms(2) unfolding c m f_def metricOf_def by auto
  have srt: "sort_Slice (\<lambda>x y. f x < f y) processes = sort_key f processes"
    using assms(1) by (rule sort_Slice_short_stable)
  define S where "S = sort_key f processes"
  have res: "getTopProcesses sort_Slice processes sortBy limit
               = (if int (length S) < limit then Inr S
                  else if limit < 0 then Inl SliceBoundsOutOfRange
                  else Inr (take (nat limit) S))"
    unfolding getTopProcesses_def lt srt Let_def S_def ..
  have "stableTopN (metricOf sortBy) (nat limit) processes = take (nat limit) S"
    by (simp add: stableTopN_def S_def f_def)
  then show ?thesis
    using assms(3) unfolding res by auto
qed

text \<open>Four processes, two of them at five percent: the tie keeps the input order.\<close>

theorem top_processes_stable_up_to_twelve_witness:
  "getTopProcesses sort_Slice [procAt 1 0, procAt 2 5, procAt 3 1, procAt 4 5] ''cpu'' 3
     = Inr [procAt 2 5, procAt 4 5, procAt 3 1]"
  using top_processes_stable_up_to_twelve
    [of "[procAt 1 0, procAt 2 5, procAt 3 1, procAt 4 5]" "''cpu''" 3]
  by (simp add: stableTopN_def metricOf_def)

section \<open>Further properties of the session and of the rates\<close>

text \<open>
  A sent counter that grew by 10240 bytes within one second gives an upload rate of
  exactly 10 KB/s, whatever the counters are (also across a wrap of the counter).
\<close>

theorem upload_ten_kilobytes_per_second:
  assumes "BytesSent c = BytesSent p + 10240"
  shows "UploadKBps (speedOf c p 1 now) = 10"
  using assms by (simp add: speedOf_def Let_def float64_simps)

theorem upload_ten_kilobytes_per_second_witness:
  "UploadKBps (speedOf (mkInterface (row ''eth0'' 11240 0) (6 * Second))
     (mkInterface (row ''eth0'' 1000 0) (5 * Second)) 1 (6 * Second)) = 10"
  using upload_ten_kilobytes_per_second
    [of "mkInterface (row ''eth0'' 11240 0) (6 * Second)"
        "mkInterface (row ''eth0'' 1000 0) (5 * Second)" "6 * Second"]
  by (simp add: mkInterface_def row_def)

text \<open>
  For a command line of ASCII characters bytes are characters: when it has more than 100
  characters, the record holds its first 100 characters followed by three dots.
\<close>

theorem ascii_command_line_cut_by_characters:
  assumes "procCmdline proc = Inr cmdline"
      and "\<forall>c \<in> set cmdline. (of_char c :: nat) < 128"
      and "characterCount cmdline > 100"
  shows "\<exists>info. getProcessInfo proc = Inr info
           \<and> CommandLine info = firstCharacters 100 cmdline @ ''...''"
proof -
  have "length cmdline > 100" using assms(2,3) by (simp add: characterCount_ascii)
  then show ?thesis
    using assms(1,2) by (auto simp: getProcessInfo_def commandLineOf_def firstCharacters_ascii)
qed

theorem ascii_command_line_cut_by_characters_witness:
  "getProcessInfo (exampleProcess (Inr (replicate 101 CHR ''a'')))
     = Inr (exampleInfo (firstCharacters 100 (replicate 101 CHR ''a'') @ ''...''))
   \<and> characterCount (replicate 101 CHR ''a'') = 101"
  using ascii_command_line_cut_by_characters
    [of "exampleProcess (Inr (replicate 101 CHR ''a''))" "replicate 101 CHR ''a''"]
  by (simp add: getProcessInfo_def exampleProcess_def exampleInfo_def orZero_def commandLineOf_def
      characterCount_ascii firstCharacters_ascii)

text \<open>Pressing \<open>p\<close> twice gives back the application state, whatever it was.\<close>

theorem pause_twice_restores_state:
  "\<exists>w1 w2. handleKeyPress opened (key CHR ''p'') w = Inr (False, w1)
      \<and> handleKeyPress opened' (key CHR ''p'') w1 = Inr (False, w2)
      \<and> paused (app w1) = (\<not> paused (app w))
      \<and> app w2 = app w"
  by (simp add: handleKeyPress_def displayInterface_def)

text \<open>A key that is none of the recognised ones changes nothing and has no effect.\<close>

theorem unrecognised_key_is_ignored:
  assumes "k \<notin> key ` set ''qQhH?12345pPcClLeErR+-''"
  shows "handleKeyPress opened k w = Inr (False, w)"
  using assms by (simp add: handleKeyPress_def)

theorem unrecognised_key_is_ignored_witness:
  "handleKeyPress (Inl ProviderError) (key CHR ''x'') initialWorld = Inr (False, initialWorld)"
  using unrecognised_key_is_ignored [of "key CHR ''x''" "Inl ProviderError" initialWorld]
  by simp

end
